theory Spec2Isabelle
  imports Main "HOL-Library.Word"
begin

section \<open>Bytes, buffers and strings\<close>

text \<open>
  A Node.js \<^verbatim>\<open>Buffer\<close> is a list of 8-bit words. \<^verbatim>\<open>buf[i]\<close> is
  \<^verbatim>\<open>undefined\<close> out of range (here \<open>None\<close>), \<^verbatim>\<open>buf.slice(a, b)\<close> clamps to
  the buffer, and the \<^verbatim>\<open>readUInt16\<close> and \<^verbatim>\<open>writeUInt16\<close> families raise a
  \<^verbatim>\<open>RangeError\<close> out of range.
\<close>

type_synonym byte = "8 word"
type_synonym buffer = "byte list"

datatype error = ParseError string | TypeError | RangeError | ReferenceError

definition at :: "'a list \<Rightarrow> nat \<Rightarrow> 'a option" where
  "at xs i = (if i < length xs then Some (xs ! i) else None)"

definition slice :: "'a list \<Rightarrow> nat \<Rightarrow> nat \<Rightarrow> 'a list" where
  "slice buf a b = take (b - a) (drop a buf)"

definition readUInt16BE :: "buffer \<Rightarrow> nat \<Rightarrow> error + nat" where
  "readUInt16BE buf off =
     (if off + 2 \<le> length buf then Inr (256 * unat (buf ! off) + unat (buf ! (off + 1)))
      else Inl RangeError)"

definition readUInt16LE :: "buffer \<Rightarrow> nat \<Rightarrow> error + nat" where
  "readUInt16LE buf off =
     (if off + 2 \<le> length buf then Inr (unat (buf ! off) + 256 * unat (buf ! (off + 1)))
      else Inl RangeError)"

definition writeUInt16LE :: "buffer \<Rightarrow> int \<Rightarrow> nat \<Rightarrow> error + buffer" where
  "writeUInt16LE buf val off =
     (if val < 0 \<or> 65535 < val \<or> length buf < off + 2 then Inl RangeError
      else Inr (buf[off := word_of_int (val mod 256), off + 1 := word_of_int (val div 256)]))"

definition writeInt16BE :: "buffer \<Rightarrow> int \<Rightarrow> nat \<Rightarrow> error + buffer" where
  "writeInt16BE buf val off =
     (if val < - 32768 \<or> 32767 < val \<or> length buf < off + 2 then Inl RangeError
      else Inr (buf[off := word_of_int ((val mod 65536) div 256),
                    off + 1 := word_of_int (val mod 256)]))"

subsection \<open>Hexadecimal\<close>

text \<open>
  \<^verbatim>\<open>buf.toString('hex')\<close> writes two lower-case digits for each byte.
  \<^verbatim>\<open>Buffer.from(s, 'hex')\<close> reads pairs of digits of either case and stops at the
  first pair that is not two hexadecimal digits; a trailing single character is dropped.
\<close>

definition hexdigit :: "nat \<Rightarrow> char" where
  "hexdigit n = char_of (if n < 10 then 48 + n else 87 + n)"

definition hexval :: "char \<Rightarrow> nat option" where
  "hexval c =
     (let n = (of_char c :: nat) in
      if 48 \<le> n \<and> n \<le> 57 then Some (n - 48)
      else if 97 \<le> n \<and> n \<le> 102 then Some (n - 87)
      else if 65 \<le> n \<and> n \<le> 70 then Some (n - 55)
      else None)"

definition to_hex :: "buffer \<Rightarrow> string" where
  "to_hex buf = concat (map (\<lambda>b. [hexdigit (unat b div 16), hexdigit (unat b mod 16)]) buf)"

fun from_hex :: "string \<Rightarrow> buffer" where
  "from_hex (a # b # r) =
     (case hexval a of
        None \<Rightarrow> []
      | Some h \<Rightarrow> (case hexval b of
          None \<Rightarrow> []
        | Some l \<Rightarrow> word_of_nat (16 * h + l) # from_hex r))"
| "from_hex _ = []"

subsection \<open>Numbers as text\<close>

text \<open>
  \<^verbatim>\<open>String(n)\<close> and \<^verbatim>\<open>n.toString(16)\<close> for a non-negative integer, most
  significant digit first, with no leading zero.
\<close>

fun radix_digits :: "nat \<Rightarrow> nat \<Rightarrow> nat \<Rightarrow> string" where
  "radix_digits 0 b n = []"
| "radix_digits (Suc fuel) b n =
     (if n < b then [hexdigit n] else radix_digits fuel b (n div b) @ [hexdigit (n mod b)])"

definition toString10 :: "nat \<Rightarrow> string" where
  "toString10 n = radix_digits (Suc n) 10 n"

definition toString16 :: "nat \<Rightarrow> string" where
  "toString16 n = radix_digits (Suc n) 16 n"

section \<open>Peer directory\<close>

text \<open>
  The node keeps \<^verbatim>\<open>this.peers\<close>, \<^verbatim>\<open>this.maxPeers\<close>, \<^verbatim>\<open>this.tcpTimeout\<close> and
  \<^verbatim>\<open>this.minimalConfirmAck\<close>. The array methods used on the peer list are
  \<^verbatim>\<open>indexOf\<close> (first position, or \<open>-1\<close>), \<^verbatim>\<open>splice(i, 1)\<close>, \<^verbatim>\<open>unshift\<close>
  and \<^verbatim>\<open>pop\<close>.
\<close>

record node =
  peers :: "string list"
  maxPeers :: nat
  tcpTimeout :: nat
  minimalConfirmAck :: bool

definition new_node :: node where
  "new_node = \<lparr> peers = [''rai.raiblocks.net:7075''], maxPeers = 200, tcpTimeout = 4000,
                 minimalConfirmAck = True \<rparr>"

fun indexOf_from :: "nat \<Rightarrow> 'a list \<Rightarrow> 'a \<Rightarrow> int" where
  "indexOf_from i [] x = - 1"
| "indexOf_from i (y # ys) x = (if y = x then int i else indexOf_from (Suc i) ys x)"

definition indexOf :: "'a list \<Rightarrow> 'a \<Rightarrow> int" where
  "indexOf xs x = indexOf_from 0 xs x"

definition splice1 :: "'a list \<Rightarrow> nat \<Rightarrow> 'a list" where
  "splice1 xs i = take i xs @ drop (Suc i) xs"

definition unshift :: "'a list \<Rightarrow> 'a \<Rightarrow> 'a list" where
  "unshift xs x = x # xs"

definition pop :: "'a list \<Rightarrow> 'a list" where
  "pop xs = butlast xs"

text \<open>Lines 126 to 133 of the message handler: the responding peer is recorded.\<close>

definition observe :: "node \<Rightarrow> string \<Rightarrow> node" where
  "observe n peerAddress =
     (let peerIndex = indexOf (peers n) peerAddress;
          ps1 = (if peerIndex \<noteq> - 1 then splice1 (peers n) (nat peerIndex) else peers n);
          ps2 = unshift ps1 peerAddress;
          ps3 = (if length ps2 > maxPeers n then pop ps2 else ps2)
      in n\<lparr>peers := ps3\<rparr>)"

definition peerAddress_of :: "string \<Rightarrow> nat \<Rightarrow> string" where
  "peerAddress_of address port = address @ '':'' @ toString10 port"

section \<open>Protocol constants\<close>

definition IPV4MASK :: buffer where
  "IPV4MASK = [0, 0, 0, 0, 0, 0, 0, 0, 0, 0, 0xff, 0xff]"

definition BULK_PULL_PREFIX :: buffer where
  "BULK_PULL_PREFIX = [0x52, 0x43, 0x05, 0x05, 0x01, 0x03, 0x00]"

definition DEFAULT_FRONTIER_REQ :: buffer where
  "DEFAULT_FRONTIER_REQ = replicate 32 0 @ [0xff, 0xff, 0xff, 0xff]"

definition MESSAGE_TYPES :: "string list" where
  "MESSAGE_TYPES = [''invalid'', ''not_a_type'', ''keepalive'', ''publish'', ''confirm_req'',
     ''confirm_ack'', ''bulk_pull'', ''bulk_push'', ''frontier_req'']"

definition BLOCK_TYPES :: "(string \<times> nat) list" where
  "BLOCK_TYPES = [(''invalid'', 0), (''not_a_block'', 1), (''send'', 2), (''receive'', 3),
     (''open'', 4), (''change'', 5), (''state'', 6)]"

definition BLOCK_TYPES_INDEX :: "string list" where
  "BLOCK_TYPES_INDEX = [''invalid'', ''not_a_block'', ''send'', ''receive'', ''open'',
     ''change'', ''state'']"

definition BLOCK_LENGTHS :: "nat list" where
  "BLOCK_LENGTHS = [0, 0, 80, 64, 96, 64, 144]"

text \<open>Each required field: the block types that carry it, and its length in bytes.\<close>

definition REQUIRED_FIELDS :: "(string \<times> nat list \<times> nat) list" where
  "REQUIRED_FIELDS =
     [(''previous'', [2, 3, 5, 6], 32),
      (''destination'', [2], 32),
      (''balance'', [2, 6], 16),
      (''source'', [3, 4], 32),
      (''representative'', [4, 5, 6], 32),
      (''account'', [4, 6], 32),
      (''link'', [6], 32)]"

definition SPECIAL_ORDERING :: "(string \<times> string list) list" where
  "SPECIAL_ORDERING =
     [(''state'', [''account'', ''previous'', ''representative'', ''balance'', ''link''])]"

definition BIG_ENDIAN_WORK :: "string list" where
  "BIG_ENDIAN_WORK = [''state'']"

text \<open>
  \<^verbatim>\<open>/^[A-F-a-f0-9]{64}$/\<close>: the class holds \<open>A-F\<close>, the hyphen, \<open>a-f\<close> and
  \<open>0-9\<close>.
\<close>

definition hex64_class :: "char \<Rightarrow> bool" where
  "hex64_class c =
     (let n = (of_char c :: nat) in
      (65 \<le> n \<and> n \<le> 70) \<or> n = 45 \<or> (97 \<le> n \<and> n \<le> 102) \<or> (48 \<le> n \<and> n \<le> 57))"

definition HEX64CHAR_PATTERN :: "string \<Rightarrow> bool" where
  "HEX64CHAR_PATTERN s = (length s = 64 \<and> list_all hex64_class s)"

text \<open>\<^verbatim>\<open>/^\[[A-Fa-f0-9:]+\]:[0-9]+$/\<close>\<close>

definition is_digit :: "char \<Rightarrow> bool" where
  "is_digit c = (let n = (of_char c :: nat) in 48 \<le> n \<and> n \<le> 57)"

definition ipv6_class :: "char \<Rightarrow> bool" where
  "ipv6_class c = (hexval c \<noteq> None \<or> c = CHR '':'')"

definition IPV6_PATTERN :: "string \<Rightarrow> bool" where
  "IPV6_PATTERN s =
     (case s of
        [] \<Rightarrow> False
      | c # r \<Rightarrow>
          c = CHR ''['' \<and> takeWhile ipv6_class r \<noteq> [] \<and>
          (case dropWhile ipv6_class r of
             a # b # ds \<Rightarrow> a = CHR '']'' \<and> b = CHR '':'' \<and> ds \<noteq> [] \<and> list_all is_digit ds
           | _ \<Rightarrow> False))"

section \<open>Messages\<close>

text \<open>
  The values a message body takes: no body (\<^verbatim>\<open>undefined\<close>), a boolean, a number, a
  string, a \<^verbatim>\<open>Buffer\<close>, an array of strings (the peers of a keepalive) and a plain
  object with string values (a block, keyed by field name in insertion order).
  \<open>truthy\<close> is JavaScript's conversion to boolean.
\<close>

datatype body =
    BAbsent
  | BBool bool
  | BNum int
  | BStr string
  | BBuf buffer
  | BArr "string list"
  | BObj "(string \<times> string) list"

fun truthy :: "body \<Rightarrow> bool" where
  "truthy BAbsent = False"
| "truthy (BBool b) = b"
| "truthy (BNum n) = (n \<noteq> 0)"
| "truthy (BStr s) = (s \<noteq> [])"
| "truthy (BBuf b) = True"
| "truthy (BArr xs) = True"
| "truthy (BObj kvs) = True"

text \<open>
  A message object, as \<^verbatim>\<open>renderMessage\<close> takes it and \<^verbatim>\<open>parseMessage\<close> returns
  it. A property that is not in the object is \<open>None\<close>; \<open>mainnet\<close> holds the truth
  value of the property.
\<close>

record msg =
  mainnet :: "bool option"
  versionMax :: "int option"
  versionUsing :: "int option"
  versionMin :: "int option"
  msg_type :: "string option"
  extensions :: "int option"
  body :: body
  account :: "string option"

definition empty_msg :: msg where
  "empty_msg = \<lparr> mainnet = None, versionMax = None, versionUsing = None, versionMin = None,
                  msg_type = None, extensions = None, body = BAbsent, account = None \<rparr>"

text \<open>The result of \<^verbatim>\<open>renderMessage\<close>: \<^verbatim>\<open>{ message, hash }\<close>.\<close>

record rendered =
  message :: "buffer option"
  hash :: "string option"

text \<open>
  The hash and signature functions come from the modules \<^verbatim>\<open>./blake2b\<close> and
  \<^verbatim>\<open>./nacl\<close>, which the codec takes as given: \<open>blake2b\<close> is the 32-byte digest of
  the bytes fed to one context, \<open>sign_detached\<close> is \<^verbatim>\<open>nacl.sign.detached\<close>.
\<close>

record crypto =
  blake2b :: "buffer \<Rightarrow> buffer"
  sign_detached :: "buffer \<Rightarrow> buffer \<Rightarrow> buffer"

section \<open>Block fields\<close>

definition blockFields :: "string \<Rightarrow> string list" where
  "blockFields blockType =
     (case map_of SPECIAL_ORDERING blockType of
        Some fs \<Rightarrow> fs
      | None \<Rightarrow>
          map fst (filter (\<lambda>(param, types, len).
              (case map_of BLOCK_TYPES blockType of
                 None \<Rightarrow> False
               | Some t \<Rightarrow> indexOf types t \<noteq> - 1))
            REQUIRED_FIELDS))"

definition field_length :: "string \<Rightarrow> nat option" where
  "field_length field = map_option snd (map_of REQUIRED_FIELDS field)"

section \<open>Rendering\<close>

definition header_of :: "msg \<Rightarrow> int \<Rightarrow> buffer" where
  "header_of msg type =
     [0x52,
      (case mainnet msg of None \<Rightarrow> 0x43 | Some b \<Rightarrow> if b then 0x43 else 0x41),
      (case versionMax msg of Some v \<Rightarrow> word_of_int v | None \<Rightarrow> 0x07),
      (case versionUsing msg of Some v \<Rightarrow> word_of_int v | None \<Rightarrow> 0x07),
      (case versionMin msg of Some v \<Rightarrow> word_of_int v | None \<Rightarrow> 0x01),
      word_of_int type,
      0x00,
      0x00]"

text \<open>
  \<^verbatim>\<open>fields.map(field => ...)\<close>: the first field that is missing or has the wrong
  length raises.
\<close>

fun field_values :: "(string \<times> string) list \<Rightarrow> string list \<Rightarrow> error + buffer list" where
  "field_values blk [] = Inr []"
| "field_values blk (field # rest) =
     (case map_of blk field of
        None \<Rightarrow> Inl (ParseError (''missing_field_'' @ field))
      | Some v \<Rightarrow>
          (case field_length field of
             None \<Rightarrow> Inl TypeError
           | Some len \<Rightarrow>
               if length (from_hex v) \<noteq> len then Inl (ParseError (''length_mismatch_'' @ field))
               else (case field_values blk rest of
                       Inl e \<Rightarrow> Inl e
                     | Inr vs \<Rightarrow> Inr (from_hex v # vs))))"

text \<open>
  Lines 299 to 307. The signature stays \<^verbatim>\<open>undefined\<close> (\<open>None\<close>) when the block
  has none and no account key is given (an empty key string is falsy).
\<close>

definition block_signature ::
  "crypto \<Rightarrow> (string \<times> string) list \<Rightarrow> string option \<Rightarrow> buffer \<Rightarrow> error + buffer option" where
  "block_signature P blk accountKey h =
     (case map_of blk ''signature'' of
        Some s \<Rightarrow> Inr (Some (from_hex s))
      | None \<Rightarrow>
          (case accountKey of
             None \<Rightarrow> Inr None
           | Some k \<Rightarrow>
               if k = [] then Inr None
               else if length (from_hex k) \<noteq> 32
                 then Inl (ParseError ''length_mismatch_private_key'')
               else Inr (Some (sign_detached P h (from_hex k)))))"

text \<open>
  Lines 277 to 315, the body of a \<^verbatim>\<open>publish\<close> or \<^verbatim>\<open>confirm_req\<close>.
  \<^verbatim>\<open>Buffer.from(undefined, 'hex')\<close> (no \<^verbatim>\<open>work\<close> property) and
  \<^verbatim>\<open>Buffer.concat\<close> of a list with an \<^verbatim>\<open>undefined\<close> entry raise a
  \<^verbatim>\<open>TypeError\<close>.
\<close>

definition render_block ::
  "crypto \<Rightarrow> buffer \<Rightarrow> (string \<times> string) list \<Rightarrow> string option \<Rightarrow> error + rendered" where
  "render_block P header blk accountKey =
     (case map_of blk ''type'' of
        None \<Rightarrow> Inl (ParseError ''invalid_block_type'')
      | Some btype \<Rightarrow>
          if map_of BLOCK_TYPES btype = None then Inl (ParseError ''invalid_block_type'')
          else
            (case writeInt16BE header (indexOf BLOCK_TYPES_INDEX btype) 6 of
               Inl e \<Rightarrow> Inl e
             | Inr header' \<Rightarrow>
            (case field_values blk (blockFields btype) of
               Inl e \<Rightarrow> Inl e
             | Inr vals \<Rightarrow>
            (let h = blake2b P (concat vals) in
            (case block_signature P blk accountKey h of
               Inl e \<Rightarrow> Inl e
             | Inr signature \<Rightarrow>
            (case map_of blk ''work'' of
               None \<Rightarrow> Inl TypeError
             | Some w \<Rightarrow>
            (let work = (if indexOf BIG_ENDIAN_WORK btype = - 1
                         then rev (from_hex w) else from_hex w) in
             if length work \<noteq> 8 then Inl (ParseError ''length_mismatch_work'')
             else
               (case signature of
                  None \<Rightarrow> Inl TypeError
                | Some sg \<Rightarrow>
                    Inr \<lparr> message = Some (header' @ concat vals @ sg @ work),
                          hash = Some (to_hex h) \<rparr>))))))))"

subsection \<open>Keepalive peers\<close>

text \<open>
  \<^verbatim>\<open>address.split(/[\.:]/)\<close> cuts at every dot and colon and keeps empty pieces.
  \<^verbatim>\<open>parseInt(val, 10)\<close> skips leading white space, takes an optional sign and the
  longest run of decimal digits, and is \<^verbatim>\<open>NaN\<close> (\<open>None\<close>) when there is no digit.
\<close>

fun split_on :: "(char \<Rightarrow> bool) \<Rightarrow> string \<Rightarrow> string list" where
  "split_on p [] = [[]]"
| "split_on p (c # cs) =
     (if p c then [] # split_on p cs
      else (case split_on p cs of
              [] \<Rightarrow> [[c]]
            | x # xs \<Rightarrow> (c # x) # xs))"

definition dot_or_colon :: "char \<Rightarrow> bool" where
  "dot_or_colon c = (c = CHR ''.'' \<or> c = CHR '':'')"

definition is_space :: "char \<Rightarrow> bool" where
  "is_space c = (let n = (of_char c :: nat) in (9 \<le> n \<and> n \<le> 13) \<or> n = 32)"

definition digits_value :: "string \<Rightarrow> nat" where
  "digits_value ds = foldl (\<lambda>a c. 10 * a + (of_char c - 48)) 0 ds"

definition parseInt10 :: "string \<Rightarrow> int option" where
  "parseInt10 s =
     (let t = dropWhile is_space s;
          neg = (case t of [] \<Rightarrow> False | c # r \<Rightarrow> c = CHR ''-'');
          u = (case t of [] \<Rightarrow> [] | c # r \<Rightarrow> if c = CHR ''-'' \<or> c = CHR ''+'' then r else t);
          ds = takeWhile is_digit u
      in if ds = [] then None
         else Some (if neg then - int (digits_value ds) else int (digits_value ds)))"

text \<open>
  Lines 333 to 346: the five parts of one address. A byte store keeps the value modulo
  256; the port is written with \<^verbatim>\<open>writeUInt16LE\<close>.
\<close>

fun put_parts :: "buffer \<Rightarrow> nat \<Rightarrow> nat \<Rightarrow> string list \<Rightarrow> error + buffer" where
  "put_parts m index i [] = Inr m"
| "put_parts m index i (val # vals) =
     (let pos = 8 + 16 * index + 12 + i in
      case parseInt10 val of
        None \<Rightarrow> Inl (ParseError ''invalid_address'')
      | Some v \<Rightarrow>
          if i = 4 then
            (case writeUInt16LE m v pos of
               Inl e \<Rightarrow> Inl e
             | Inr m' \<Rightarrow> put_parts m' index (Suc i) vals)
          else put_parts (m[pos := word_of_int v]) index (Suc i) vals)"

text \<open>Lines 321 to 348: \<^verbatim>\<open>msg.body.forEach((address, index) => ...)\<close>.\<close>

fun put_peers :: "buffer \<Rightarrow> nat \<Rightarrow> string list \<Rightarrow> error + buffer" where
  "put_peers m index [] = Inr m"
| "put_peers m index (address # rest) =
     (if IPV6_PATTERN address then Inl (ParseError ''ipv6_not_supported'')
      else
        (let parts = split_on dot_or_colon address in
         if length parts \<noteq> 5 then Inl (ParseError ''invalid_address'')
         else
           (case put_parts (m[8 + 16 * index + 10 := 255, 8 + 16 * index + 11 := 255])
                   index 0 parts of
              Inl e \<Rightarrow> Inl e
            | Inr m' \<Rightarrow> put_peers m' (Suc index) rest)))"

subsection \<open>renderMessage\<close>

text \<open>
  \<^verbatim>\<open>msg = msg || {}\<close>: a missing message is the empty object, \<open>empty_msg\<close>.
  The branches are tried in the order of the source: a \<^verbatim>\<open>Buffer\<close> body; a truthy
  body of a \<^verbatim>\<open>publish\<close> or \<^verbatim>\<open>confirm_req\<close>; \<^verbatim>\<open>keepalive\<close>;
  \<^verbatim>\<open>frontier_req\<close>; a truthy body of a \<^verbatim>\<open>bulk_pull\<close>. When none applies
  \<^verbatim>\<open>message\<close> stays \<^verbatim>\<open>undefined\<close>. The operator \<^verbatim>\<open>in\<close> raises a
  \<^verbatim>\<open>TypeError\<close> on a primitive value and finds no \<^verbatim>\<open>type\<close> in an array.
\<close>

definition renderMessage :: "crypto \<Rightarrow> msg \<Rightarrow> string option \<Rightarrow> error + rendered" where
  "renderMessage P msg accountKey =
     (let ty = (case msg_type msg of None \<Rightarrow> - 1 | Some t \<Rightarrow> indexOf MESSAGE_TYPES t) in
      if ty = - 1 then Inl (ParseError ''invalid_type'')
      else
        (case (case extensions msg of
                 None \<Rightarrow> Inr (header_of msg ty)
               | Some x \<Rightarrow> writeInt16BE (header_of msg ty) x 6) of
           Inl e \<Rightarrow> Inl e
         | Inr header \<Rightarrow>
             (case body msg of
                BBuf b \<Rightarrow> Inr \<lparr> message = Some (header @ b), hash = None \<rparr>
              | _ \<Rightarrow>
                if truthy (body msg) \<and>
                   (msg_type msg = Some ''publish'' \<or> msg_type msg = Some ''confirm_req'') then
                  (case body msg of
                     BObj blk \<Rightarrow> render_block P header blk accountKey
                   | BArr xs \<Rightarrow> Inl (ParseError ''invalid_block_type'')
                   | _ \<Rightarrow> Inl TypeError)
                else if msg_type msg = Some ''keepalive'' then
                  (case body msg of
                     BArr addrs \<Rightarrow>
                       if length addrs > 8 then Inl (ParseError ''too_many_peers'')
                       else (case put_peers (header @ replicate 144 0) 0 addrs of
                               Inl e \<Rightarrow> Inl e
                             | Inr m \<Rightarrow> Inr \<lparr> message = Some m, hash = None \<rparr>)
                   | _ \<Rightarrow> Inr \<lparr> message = Some (header @ replicate 144 0), hash = None \<rparr>)
                else if msg_type msg = Some ''frontier_req'' then
                  Inr \<lparr> message = Some DEFAULT_FRONTIER_REQ, hash = None \<rparr>
                else if truthy (body msg) \<and> msg_type msg = Some ''bulk_pull'' then
                  (case body msg of
                     BStr s \<Rightarrow>
                       if HEX64CHAR_PATTERN s
                       then Inr \<lparr> message = Some (header @ from_hex s @ from_hex s),
                                  hash = None \<rparr>
                       else Inl (ParseError ''invalid_account'')
                   | _ \<Rightarrow> Inl (ParseError ''invalid_account''))
                else Inr \<lparr> message = None, hash = None \<rparr>)))"

section \<open>Parsing\<close>

subsection \<open>parseIp\<close>

text \<open>
  The first replacement of the IPv6 branch, \<^verbatim>\<open>/(^|:)0(:0)*:0(:|$)/\<close> by
  \<^verbatim>\<open>'$1::$3'\<close>. \<open>zero_groups\<close> matches \<^verbatim>\<open>(:0)*:0(:|$)\<close> at the front of a
  string, the star taking as many repetitions as let the rest match, and returns the
  third group and what follows the match. \<open>zero_run_at\<close> tries the whole pattern at one
  position, the alternative \<^verbatim>\<open>^\<close> before the colon.
\<close>

fun zero_groups :: "string \<Rightarrow> (string \<times> string) option" where
  "zero_groups (a # b # r) =
     (if a = CHR '':'' \<and> b = CHR ''0'' then
        (case zero_groups r of
           Some g \<Rightarrow> Some g
         | None \<Rightarrow>
             (case r of
                [] \<Rightarrow> Some ([], [])
              | c # r' \<Rightarrow> if c = CHR '':'' then Some ('':'', r') else None))
      else None)"
| "zero_groups _ = None"

definition zero_run_at :: "bool \<Rightarrow> string \<Rightarrow> (string \<times> string \<times> string) option" where
  "zero_run_at start s =
     (case (if start then
              (case s of [] \<Rightarrow> None | c # r \<Rightarrow> if c = CHR ''0'' then zero_groups r else None)
            else None) of
        Some (g3, rest) \<Rightarrow> Some ([], g3, rest)
      | None \<Rightarrow>
          (case s of
             c # d # r \<Rightarrow>
               if c = CHR '':'' \<and> d = CHR ''0''
               then map_option (\<lambda>(g3, rest). ('':'', g3, rest)) (zero_groups r)
               else None
           | _ \<Rightarrow> None))"

fun replace_zero_run :: "bool \<Rightarrow> string \<Rightarrow> string" where
  "replace_zero_run start [] = []"
| "replace_zero_run start (c # cs) =
     (case zero_run_at start (c # cs) of
        Some (g1, g3, rest) \<Rightarrow> g1 @ ''::'' @ g3 @ rest
      | None \<Rightarrow> c # replace_zero_run False cs)"

text \<open>The second replacement, \<^verbatim>\<open>/:{3,4}/\<close> by \<^verbatim>\<open>'::'\<close>.\<close>

fun replace_colons :: "string \<Rightarrow> string" where
  "replace_colons (a # b # c # r) =
     (if a = CHR '':'' \<and> b = CHR '':'' \<and> c = CHR '':'' then
        (case r of
           [] \<Rightarrow> ''::''
         | d # r' \<Rightarrow> if d = CHR '':'' then ''::'' @ r' else ''::'' @ r)
      else a # replace_colons (b # c # r))"
| "replace_colons s = s"

fun join :: "string \<Rightarrow> string list \<Rightarrow> string" where
  "join sep [] = []"
| "join sep [x] = x"
| "join sep (x # y # ys) = x @ sep @ join sep (y # ys)"

text \<open>
  \<^verbatim>\<open>result.push(buf[i])\<close> may push \<^verbatim>\<open>undefined\<close>, which \<^verbatim>\<open>join\<close> writes as
  the empty string.
\<close>

definition byte_text :: "byte option \<Rightarrow> string" where
  "byte_text b = (case b of None \<Rightarrow> [] | Some v \<Rightarrow> toString10 (unat v))"

fun read_groups :: "buffer \<Rightarrow> nat list \<Rightarrow> error + string list" where
  "read_groups buf [] = Inr []"
| "read_groups buf (i # is) =
     (case readUInt16BE buf i of
        Inl e \<Rightarrow> Inl e
      | Inr g \<Rightarrow>
          (case read_groups buf is of
             Inl e \<Rightarrow> Inl e
           | Inr gs \<Rightarrow> Inr (toString16 g # gs)))"

text \<open>Lines 381 to 398, the \<^verbatim>\<open>Buffer\<close> case of \<^verbatim>\<open>parseIp\<close>.\<close>

definition parseIp :: "buffer \<Rightarrow> nat \<Rightarrow> error + string" where
  "parseIp buf offset =
     (if slice buf offset (offset + 12) = IPV4MASK then
        (case readUInt16LE buf (offset + 16) of
           Inl e \<Rightarrow> Inl e
         | Inr port \<Rightarrow>
             Inr (join ''.'' (map (\<lambda>i. byte_text (at buf i)) [offset + 12 ..< offset + 16])
                  @ '':'' @ toString10 port))
      else
        (case read_groups buf (map (\<lambda>k. offset + 2 * k) [0 ..< 8]) of
           Inl e \<Rightarrow> Inl e
         | Inr gs \<Rightarrow>
             (case readUInt16LE buf (offset + 16) of
                Inl e \<Rightarrow> Inl e
              | Inr port \<Rightarrow>
                  Inr (''['' @ replace_colons (replace_zero_run True (join '':'' gs))
                       @ '']:'' @ toString10 port))))"

subsection \<open>parseMessage\<close>

text \<open>
  Lines 488 to 492: \<^verbatim>\<open>for(let i=8; i<152; i+=18)\<close>, keeping every peer but the
  unspecified address.
\<close>

function keepalive_loop :: "buffer \<Rightarrow> nat \<Rightarrow> string list \<Rightarrow> error + string list" where
  "keepalive_loop buf i ps =
     (if i < 152 then
        (case parseIp buf i of
           Inl e \<Rightarrow> Inl e
         | Inr peer \<Rightarrow>
             keepalive_loop buf (i + 18) (if peer \<noteq> ''[::]:0'' then ps @ [peer] else ps))
      else Inr ps)"
  by pat_completeness auto
termination
  by (relation "measure (\<lambda>(buf, i, ps). 152 - i)") auto

declare keepalive_loop.simps [simp del]

text \<open>Lines 503 to 508: the fields of a block, cut from \<open>pos\<close> on.\<close>

fun slice_fields ::
  "buffer \<Rightarrow> nat \<Rightarrow> string list \<Rightarrow> error + ((string \<times> string) list \<times> nat)" where
  "slice_fields buf pos [] = Inr ([], pos)"
| "slice_fields buf pos (field # rest) =
     (case field_length field of
        None \<Rightarrow> Inl TypeError
      | Some len \<Rightarrow>
          (case slice_fields buf (pos + len) rest of
             Inl e \<Rightarrow> Inl e
           | Inr (blk, pos') \<Rightarrow> Inr ((field, to_hex (slice buf pos (pos + len))) # blk, pos')))"

text \<open>
  Lines 498 to 523. The block object gets its properties in the order \<^verbatim>\<open>type\<close>,
  the fields, \<^verbatim>\<open>hash\<close>, \<^verbatim>\<open>signature\<close>, \<^verbatim>\<open>work\<close>.
\<close>

definition parse_block :: "crypto \<Rightarrow> buffer \<Rightarrow> nat \<Rightarrow> error + (string \<times> string) list" where
  "parse_block P buf ext =
     (case at BLOCK_TYPES_INDEX ext of
        None \<Rightarrow> Inl (ParseError ''invalid_block_type'')
      | Some btype \<Rightarrow>
          (case slice_fields buf 8 (blockFields btype) of
             Inl e \<Rightarrow> Inl e
           | Inr (blk, pos) \<Rightarrow>
               if length buf \<noteq> pos + 72 then Inl (ParseError ''invalid_block_length'')
               else
                 (let work = slice buf (pos + 64) (pos + 72) in
                  Inr ((''type'', btype) # blk @
                       [(''hash'', to_hex (blake2b P (slice buf 8 pos))),
                        (''signature'', to_hex (slice buf pos (pos + 64))),
                        (''work'', to_hex (if indexOf BIG_ENDIAN_WORK btype = - 1
                                           then rev work else work))]))))"

text \<open>
  Lines 461 to 562. An index beyond the buffer reads \<^verbatim>\<open>undefined\<close>, which differs
  from every byte and is not \<^verbatim>\<open>>= MESSAGE_TYPES.length\<close>; \<^verbatim>\<open>readUInt16BE(6)\<close>
  then raises on a buffer shorter than 8 bytes.

  In the \<^verbatim>\<open>confirm_ack\<close> case with \<^verbatim>\<open>minimalConfirmAck\<close> off, line 546 calls
  \<^verbatim>\<open>parseMessage(msgCopy)\<close>. The module binds no identifier \<^verbatim>\<open>parseMessage\<close>:
  the function is only the property \<^verbatim>\<open>NanoNode.parseMessage\<close>. The call raises a
  \<^verbatim>\<open>ReferenceError\<close>, after slices and a \<^verbatim>\<open>Buffer.concat\<close> that cannot raise,
  so nothing after line 546 runs.
\<close>

definition parseMessage :: "crypto \<Rightarrow> buffer \<Rightarrow> bool \<Rightarrow> error + msg" where
  "parseMessage P buf minimal =
     (if at buf 0 \<noteq> Some 0x52 then Inl (ParseError ''magic_number'')
      else if at buf 1 \<noteq> Some 0x43 \<and> at buf 1 \<noteq> Some 0x41
        then Inl (ParseError ''invalid_network'')
      else if (case at buf 5 of None \<Rightarrow> False | Some t \<Rightarrow> unat t \<ge> length MESSAGE_TYPES)
        then Inl (ParseError ''invalid_type'')
      else
        (case readUInt16BE buf 6 of
           Inl e \<Rightarrow> Inl e
         | Inr ext \<Rightarrow>
             (let m = \<lparr> mainnet = Some (at buf 1 = Some 0x43),
                        versionMax = map_option uint (at buf 2),
                        versionUsing = map_option uint (at buf 3),
                        versionMin = map_option uint (at buf 4),
                        msg_type = map_option (\<lambda>t. MESSAGE_TYPES ! unat t) (at buf 5),
                        extensions = Some (int ext),
                        body = BAbsent,
                        account = None \<rparr> in
              if msg_type m = Some ''keepalive'' then
                (if length buf \<noteq> 152 then Inl (ParseError ''invalid_block_length'')
                 else (case keepalive_loop buf 8 [] of
                         Inl e \<Rightarrow> Inl e
                       | Inr ps \<Rightarrow> Inr (m\<lparr>body := BArr ps\<rparr>)))
              else if msg_type m = Some ''publish'' \<or> msg_type m = Some ''confirm_req'' then
                (case parse_block P buf ext of
                   Inl e \<Rightarrow> Inl e
                 | Inr blk \<Rightarrow> Inr (m\<lparr>body := BObj blk\<rparr>))
              else if msg_type m = Some ''confirm_ack'' then
                (if minimal
                 then Inr (m\<lparr>account := Some (to_hex (slice buf 8 40)),
                             body := BBuf (slice buf 8 (length buf))\<rparr>)
                 else Inl ReferenceError)
              else Inr (m\<lparr>body := BBuf (slice buf 8 (length buf))\<rparr>))))"

section \<open>Chain puller\<close>

text \<open>The result of \<^verbatim>\<open>parseChain\<close>; \<open>remaining\<close> is \<open>None\<close> for \<^verbatim>\<open>null\<close>.\<close>

record chain =
  blocks :: "body list"
  remaining :: "buffer option"

text \<open>
  Lines 438 to 457. A type byte above 6 reads \<^verbatim>\<open>undefined\<close> from
  \<^verbatim>\<open>BLOCK_LENGTHS\<close>, so \<^verbatim>\<open>blockLen\<close> is \<^verbatim>\<open>NaN\<close>: the comparison with the
  buffer length is false, the slice up to \<^verbatim>\<open>NaN\<close> is empty, the bare prefix is
  parsed, and \<^verbatim>\<open>offset\<close> becomes \<^verbatim>\<open>NaN\<close>, which ends the loop.
\<close>

function parseChain_loop ::
  "crypto \<Rightarrow> buffer \<Rightarrow> nat \<Rightarrow> buffer option \<Rightarrow> body list \<Rightarrow> error + chain" where
  "parseChain_loop P buf offset rem output =
     (if length buf > offset then
        (let blockType = unat (buf ! offset) in
         case at BLOCK_LENGTHS blockType of
           None \<Rightarrow>
             (case parseMessage P (BULK_PULL_PREFIX @ []) False of
                Inl e \<Rightarrow> Inl e
              | Inr m \<Rightarrow> Inr \<lparr> blocks = output @ [body m], remaining = rem \<rparr>)
         | Some len \<Rightarrow>
             if blockType = 1 then parseChain_loop P buf (offset + (len + 1)) None output
             else
               (let blockLen = len + 1 + (64 + 8) in
                if length buf < offset + blockLen then
                  parseChain_loop P buf (offset + blockLen)
                    (Some (slice buf offset (length buf))) output
                else
                  (case parseMessage P
                          (BULK_PULL_PREFIX @ slice buf offset (offset + blockLen)) False of
                     Inl e \<Rightarrow> Inl e
                   | Inr m \<Rightarrow>
                       parseChain_loop P buf (offset + blockLen) rem (output @ [body m]))))
      else Inr \<lparr> blocks = output, remaining = rem \<rparr>)"
  by pat_completeness auto
termination
  by (relation "measure (\<lambda>(P, buf, offset, rem, output). length buf - offset)") auto

declare parseChain_loop.simps [simp del]

definition parseChain :: "crypto \<Rightarrow> buffer \<Rightarrow> error + chain" where
  "parseChain P buf = parseChain_loop P buf 0 (Some []) []"

text \<open>
  Lines 209 to 221, the \<^verbatim>\<open>data\<close> handler of one connection of
  \<^verbatim>\<open>fetchAccount\<close>: its state is \<^verbatim>\<open>blocks\<close> and \<^verbatim>\<open>remaining\<close>.
  \<^verbatim>\<open>Buffer.concat([remaining, data])\<close> raises a \<^verbatim>\<open>TypeError\<close> once
  \<^verbatim>\<open>remaining\<close> is \<^verbatim>\<open>null\<close>.
\<close>

definition on_data :: "crypto \<Rightarrow> chain \<Rightarrow> buffer \<Rightarrow> error + chain" where
  "on_data P st data =
     (case remaining st of
        None \<Rightarrow> Inl TypeError
      | Some r \<Rightarrow>
          (case parseChain P (r @ data) of
             Inl e \<Rightarrow> Inl e
           | Inr parsed \<Rightarrow>
               Inr \<lparr> blocks = blocks st @ blocks parsed, remaining = remaining parsed \<rparr>))"

fun feed :: "crypto \<Rightarrow> chain \<Rightarrow> buffer list \<Rightarrow> error + chain" where
  "feed P st [] = Inr st"
| "feed P st (data # rest) =
     (case on_data P st data of
        Inl e \<Rightarrow> Inl e
      | Inr st' \<Rightarrow> feed P st' rest)"

definition fresh_connection :: chain where
  "fresh_connection = \<lparr> blocks = [], remaining = Some [] \<rparr>"

section \<open>Concrete inputs\<close>

text \<open>
  A stand-in for the two library functions, to run the codec on concrete inputs. Every
  general theorem below holds for any \<open>crypto\<close>.
\<close>

definition stub_crypto :: crypto where
  "stub_crypto = \<lparr> blake2b = (\<lambda>b. take 32 (b @ replicate 32 0)),
                    sign_detached = (\<lambda>h k. replicate 64 0) \<rparr>"

text \<open>
  The block object of a variant \<open>bt\<close> whose required fields hold the bytes
  \<open>vals\<close>, written in hexadecimal, and a \<^verbatim>\<open>publish\<close> or \<^verbatim>\<open>confirm_req\<close>
  message around a block object.
\<close>

definition block_variants :: "string list" where
  "block_variants = [''send'', ''receive'', ''open'', ''change'', ''state'']"

definition block_obj :: "string \<Rightarrow> (string \<Rightarrow> buffer) \<Rightarrow> (string \<times> string) list" where
  "block_obj bt vals = (''type'', bt) # map (\<lambda>f. (f, to_hex (vals f))) (blockFields bt)"

definition block_msg ::
  "string \<Rightarrow> bool option \<Rightarrow> int option \<Rightarrow> int option \<Rightarrow> int option \<Rightarrow>
   (string \<times> string) list \<Rightarrow> msg" where
  "block_msg ty mn vM vU vm blk =
     \<lparr> mainnet = mn, versionMax = vM, versionUsing = vU, versionMin = vm,
       msg_type = Some ty, extensions = None, body = BObj blk, account = None \<rparr>"

definition example_vals :: "string \<Rightarrow> buffer" where
  "example_vals f = (if f = ''balance'' then replicate 16 3 else replicate 32 1)"

definition example_vote :: buffer where
  "example_vote = [0x52, 0x43, 7, 7, 1, 5, 0, 2] @ replicate 32 1 @ replicate 64 2
     @ replicate 8 3 @ replicate 80 4 @ replicate 64 5 @ replicate 8 6"

definition two_peers :: msg where
  "two_peers = empty_msg\<lparr>msg_type := Some ''keepalive'',
                 body := BArr [''1.2.3.4:7075'', ''5.6.7.8:7076'']\<rparr>"

definition two_peers_bytes :: buffer where
  "two_peers_bytes = [0x52, 0x43, 7, 7, 1, 2, 0, 0,
      0, 0, 0, 0, 0, 0, 0, 0, 0, 0, 255, 255, 1, 2, 3, 4, 163, 27,
      0, 0, 0, 0, 0, 0, 0, 0, 255, 255, 5, 6, 7, 8, 164, 27, 0, 0]
     @ replicate 108 0"

text \<open>
  A complete frame of the block stream: the type byte of one of the five variants, the
  payload of that type's length, a 64-byte signature and an 8-byte work value. A partial
  frame is empty or a proper beginning of a complete frame. \<open>frame_body\<close> is the block
  that \<^verbatim>\<open>parseChain\<close> pushes for a frame.
\<close>

definition wf_frame :: "buffer \<Rightarrow> bool" where
  "wf_frame f =
     (case f of
        [] \<Rightarrow> False
      | t # payload \<Rightarrow>
          2 \<le> unat t \<and> unat t \<le> 6 \<and> length payload = BLOCK_LENGTHS ! unat t + (64 + 8))"

definition partial_frame :: "buffer \<Rightarrow> bool" where
  "partial_frame p =
     (case p of
        [] \<Rightarrow> True
      | t # r \<Rightarrow> 2 \<le> unat t \<and> unat t \<le> 6 \<and> length r < BLOCK_LENGTHS ! unat t + (64 + 8))"

definition frame_body :: "crypto \<Rightarrow> buffer \<Rightarrow> body" where
  "frame_body P f =
     (case parseMessage P (BULK_PULL_PREFIX @ f) False of Inl e \<Rightarrow> BAbsent | Inr m \<Rightarrow> body m)"

definition example_frame :: buffer where
  "example_frame = 3 # replicate 64 1 @ replicate 64 2 @ [1, 2, 3, 4, 5, 6, 7, 8]"

definition one_peer :: msg where
  "one_peer = empty_msg\<lparr>msg_type := Some ''keepalive'', body := BArr [''1.2.3.4:7075'']\<rparr>"

definition one_peer_bytes :: buffer where
  "one_peer_bytes = [0x52, 0x43, 7, 7, 1, 2, 0, 0,
      0, 0, 0, 0, 0, 0, 0, 0, 0, 0, 255, 255, 1, 2, 3, 4, 163, 27]
     @ replicate 126 0"

section \<open>Hexadecimal round trip\<close>

lemma hexval_hexdigit: "n < 16 \<Longrightarrow> hexval (hexdigit n) = Some n"
  by (auto simp: hexval_def hexdigit_def Let_def)

lemma from_hex_to_hex: "from_hex (to_hex buf) = buf"
proof (induction buf)
  case Nil
  show ?case by (simp add: to_hex_def)
next
  case (Cons b bs)
  have lo: "unat b mod 16 < 16" by simp
  have hi: "unat b div 16 < 16"
    using unsigned_less [of b, where ?'a = nat] by (simp add: less_mult_imp_div_less)
  have "word_of_nat (16 * (unat b div 16) + unat b mod 16) = b"
    by simp
  with Cons lo hi show ?case
    by (simp add: to_hex_def hexval_hexdigit)
qed

lemma length_to_hex: "length (to_hex buf) = 2 * length buf"
  by (induction buf) (simp_all add: to_hex_def)

section \<open>Peer directory: properties\<close>

lemma indexOf_from_notin: "x \<notin> set xs \<Longrightarrow> indexOf_from i xs x = - 1"
  by (induction xs arbitrary: i) auto

lemma indexOf_from_ge: "x \<in> set xs \<Longrightarrow> int i \<le> indexOf_from i xs x"
proof (induction xs arbitrary: i)
  case Nil
  then show ?case by simp
next
  case (Cons y ys)
  show ?case
  proof (cases "y = x")
    case True
    then show ?thesis by simp
  next
    case False
    with Cons.prems have "x \<in> set ys" by simp
    from Cons.IH [OF this, of "Suc i"] False show ?thesis by simp
  qed
qed

lemma splice1_indexOf_from:
  "x \<in> set xs \<Longrightarrow> splice1 xs (nat (indexOf_from i xs x) - i) = remove1 x xs"
proof (induction xs arbitrary: i)
  case Nil
  then show ?case by simp
next
  case (Cons y ys)
  show ?case
  proof (cases "y = x")
    case True
    then show ?thesis by (simp add: splice1_def)
  next
    case False
    with Cons.prems have mem: "x \<in> set ys" by simp
    from indexOf_from_ge [OF mem, of "Suc i"]
    have "nat (indexOf_from (Suc i) ys x) - i = Suc (nat (indexOf_from (Suc i) ys x) - Suc i)"
      by linarith
    with False Cons.IH [OF mem, of "Suc i"] show ?thesis
      by (simp add: splice1_def)
  qed
qed

lemma observe_peers:
  "peers (observe n a) =
     (let ps = a # remove1 a (peers n) in if length ps > maxPeers n then butlast ps else ps)"
proof (cases "a \<in> set (peers n)")
  case True
  from indexOf_from_ge [OF True, of 0] have "indexOf_from 0 (peers n) a \<noteq> - 1" by linarith
  with splice1_indexOf_from [OF True, of 0] show ?thesis
    by (simp add: observe_def indexOf_def unshift_def pop_def Let_def)
next
  case False
  then show ?thesis
    by (simp add: observe_def indexOf_def unshift_def pop_def Let_def indexOf_from_notin
        remove1_idem)
qed

lemma maxPeers_observe: "maxPeers (observe n a) = maxPeers n"
  by (simp add: observe_def Let_def)

text \<open>
  Claim C4, as the code has it. Each observation of an address removes its first
  occurrence, puts the address at the front and drops the last entry when the list is
  longer than \<open>maxPeers\<close>. After the observations A, B, A, C (pairwise distinct) on an
  empty directory of capacity 2 the directory is [C, A]: the address observed last is at
  the front.
\<close>

theorem observe_moves_to_front:
  assumes "distinct [A, B, C]"
  shows "peers (observe n a) =
           (let ps = a # remove1 a (peers n)
            in if length ps > maxPeers n then butlast ps else ps)
         \<and> peers (foldl observe (n\<lparr>peers := [], maxPeers := 2\<rparr>) [A, B, A, C]) = [C, A]"
  using assms by (auto simp add: observe_peers maxPeers_observe Let_def)

theorem observe_moves_to_front_witness:
  "distinct [''10.0.0.1:7075'', ''10.0.0.2:7075'', ''10.0.0.3:7075'']
   \<and> peers (observe new_node ''10.0.0.1:7075'') = [''10.0.0.1:7075'', ''rai.raiblocks.net:7075'']
   \<and> peers (foldl observe (new_node\<lparr>peers := [], maxPeers := 2\<rparr>)
        [''10.0.0.1:7075'', ''10.0.0.2:7075'', ''10.0.0.1:7075'', ''10.0.0.3:7075''])
      = [''10.0.0.3:7075'', ''10.0.0.1:7075'']"
  using observe_moves_to_front [of "''10.0.0.1:7075''" "''10.0.0.2:7075''" "''10.0.0.3:7075''"
      new_node "''10.0.0.1:7075''"]
  by (simp add: new_node_def)

text \<open>
  The directory the claim C4 names, [A, C], is not what the four observations leave.
\<close>

theorem observe_ABAC_counterexample:
  "peers (foldl observe (new_node\<lparr>peers := [], maxPeers := 2\<rparr>) [''A'', ''B'', ''A'', ''C''])
   \<noteq> [''A'', ''C'']"
  by (simp add: observe_peers new_node_def maxPeers_observe Let_def)

section \<open>Rendering: the branches\<close>

text \<open>
  Claim C7 at the message \<^verbatim>\<open>{type: 'frontier_req'}\<close>: the rendered message is the
  36 bytes of \<^verbatim>\<open>DEFAULT_FRONTIER_REQ\<close> alone, 32 zero bytes and four bytes 0xFF. The
  8-byte header is built and then left out, whatever the network and version
  properties are.
\<close>

theorem frontier_req_without_header:
  "renderMessage P \<lparr> mainnet = mn, versionMax = vM, versionUsing = vU, versionMin = vm,
      msg_type = Some ''frontier_req'', extensions = None, body = BAbsent, account = acc \<rparr> k
   = Inr \<lparr> message = Some (replicate 32 0 @ [0xff, 0xff, 0xff, 0xff]), hash = None \<rparr>
   \<and> length (replicate 32 (0 :: byte) @ [0xff, 0xff, 0xff, 0xff]) = 36"
  by (simp add: renderMessage_def MESSAGE_TYPES_def indexOf_def DEFAULT_FRONTIER_REQ_def)

text \<open>
  Claim C10. A message whose \<^verbatim>\<open>extensions\<close> property is absent or a signed 16-bit
  value, whose body is not a \<^verbatim>\<open>Buffer\<close>, and whose type is \<^verbatim>\<open>publish\<close>,
  \<^verbatim>\<open>confirm_req\<close> or \<^verbatim>\<open>bulk_pull\<close> with a falsy body, or one of
  \<^verbatim>\<open>invalid\<close>, \<^verbatim>\<open>not_a_type\<close>, \<^verbatim>\<open>confirm_ack\<close>, \<^verbatim>\<open>bulk_push\<close> with any
  body, renders without an error to a result whose \<^verbatim>\<open>message\<close> is
  \<^verbatim>\<open>undefined\<close> and whose \<^verbatim>\<open>hash\<close> is \<^verbatim>\<open>null\<close>.
\<close>

theorem renderMessage_undefined_message:
  assumes "extensions m = None \<or> (\<exists>x. extensions m = Some x \<and> - 32768 \<le> x \<and> x \<le> 32767)"
    and "\<forall>b. body m \<noteq> BBuf b"
    and "msg_type m \<in> {Some ''publish'', Some ''confirm_req'', Some ''bulk_pull''}
           \<and> \<not> truthy (body m)
         \<or> msg_type m \<in> {Some ''invalid'', Some ''not_a_type'', Some ''confirm_ack'',
             Some ''bulk_push''}"
  shows "renderMessage P m k = Inr \<lparr> message = None, hash = None \<rparr>"
  using assms
  by (cases "body m")
    (auto simp: renderMessage_def MESSAGE_TYPES_def indexOf_def writeInt16BE_def header_of_def)

theorem renderMessage_undefined_message_witness:
  "renderMessage stub_crypto (empty_msg\<lparr>msg_type := Some ''publish''\<rparr>) None
     = Inr \<lparr> message = None, hash = None \<rparr>
   \<and> renderMessage stub_crypto (empty_msg\<lparr>msg_type := Some ''bulk_pull''\<rparr>) None
     = Inr \<lparr> message = None, hash = None \<rparr>
   \<and> renderMessage stub_crypto
       (empty_msg\<lparr>msg_type := Some ''bulk_push'', body := BStr ''abc''\<rparr>) None
     = Inr \<lparr> message = None, hash = None \<rparr>"
  using renderMessage_undefined_message
      [of "empty_msg\<lparr>msg_type := Some ''publish''\<rparr>" stub_crypto None]
    renderMessage_undefined_message
      [of "empty_msg\<lparr>msg_type := Some ''bulk_pull''\<rparr>" stub_crypto None]
    renderMessage_undefined_message
      [of "empty_msg\<lparr>msg_type := Some ''bulk_push'', body := BStr ''abc''\<rparr>" stub_crypto None]
  by (simp add: empty_msg_def)

section \<open>Block codec\<close>

lemma slice_mid: "slice (a @ b @ c) (length a) (length a + length b) = b"
  by (simp add: slice_def)

lemma field_length_simps:
  "field_length ''type'' = None" "field_length ''signature'' = None"
  "field_length ''work'' = None" "field_length ''hash'' = None"
  by (simp_all add: field_length_def REQUIRED_FIELDS_def)

lemma map_of_fields:
  "map_of (map (\<lambda>f. (f, g f)) fs @ extra) f =
     (if f \<in> set fs then Some (g f) else map_of extra f)"
  by (induction fs) auto

lemma field_values_ok:
  assumes "\<forall>f\<in>set fs. map_of blk f = Some (to_hex (vals f)) \<and> field_length f = Some (length (vals f))"
  shows "field_values blk fs = Inr (map vals fs)"
  using assms by (induction fs) (simp_all add: from_hex_to_hex)

lemma slice_fields_ok:
  assumes "\<forall>f\<in>set fs. field_length f = Some (length (vals f))"
  shows "slice_fields (pre @ concat (map vals fs) @ post) (length pre) fs =
           Inr (map (\<lambda>f. (f, to_hex (vals f))) fs, length pre + length (concat (map vals fs)))"
  using assms
proof (induction fs arbitrary: pre)
  case Nil
  then show ?case by simp
next
  case (Cons f fs)
  have fl: "field_length f = Some (length (vals f))" using Cons.prems by simp
  have rest: "\<forall>f\<in>set fs. field_length f = Some (length (vals f))" using Cons.prems by simp
  have sl: "slice (pre @ concat (map vals (f # fs)) @ post) (length pre) (length pre + length (vals f)) = vals f"
    using slice_mid [of pre "vals f" "concat (map vals fs) @ post"] by simp
  from Cons.IH [OF rest, of "pre @ vals f"]
  have "slice_fields (pre @ concat (map vals (f # fs)) @ post) (length pre + length (vals f)) fs =
        Inr (map (\<lambda>f. (f, to_hex (vals f))) fs, length pre + length (vals f) + length (concat (map vals fs)))"
    by simp
  with fl sl show ?case by (simp add: add.assoc)
qed

lemma variant_facts:
  assumes "bt \<in> set block_variants"
  shows "map_of BLOCK_TYPES bt \<noteq> None"
    and "\<exists>k. indexOf BLOCK_TYPES_INDEX bt = int k \<and> 2 \<le> k \<and> k \<le> 6 \<and> at BLOCK_TYPES_INDEX k = Some bt"
    and "(indexOf BIG_ENDIAN_WORK bt = - 1) = (bt \<noteq> ''state'')"
  using assms
  by (auto simp: block_variants_def BLOCK_TYPES_def BLOCK_TYPES_INDEX_def indexOf_def at_def BIG_ENDIAN_WORK_def)

lemma map_of_block_obj_field:
  assumes "f \<in> set (blockFields bt)" "field_length f \<noteq> None"
  shows "map_of (block_obj bt vals @ extra) f = Some (to_hex (vals f))"
proof -
  from assms(2) have "f \<noteq> ''type''" using field_length_simps(1) by auto
  with assms(1) show ?thesis by (simp add: block_obj_def map_of_fields del: map_of_append)
qed

lemma map_of_block_obj_other:
  assumes "\<forall>f\<in>set (blockFields bt). field_length f \<noteq> None" "field_length x = None" "x \<noteq> ''type''"
  shows "map_of (block_obj bt vals @ extra) x = map_of extra x"
proof -
  from assms(1,2) have "x \<notin> set (blockFields bt)" by auto
  with assms(3) show ?thesis by (simp add: block_obj_def map_of_fields del: map_of_append)
qed

lemma writeInt16BE_index:
  assumes "length header = 8" "k \<le> 6"
  shows "writeInt16BE header (int k) 6 = Inr (header[6 := 0, 7 := word_of_nat k])"
proof -
  have "(int k mod 65536) div 256 = 0" using assms(2) by simp
  moreover have "int k mod 256 = int k" using assms(2) by simp
  ultimately show ?thesis using assms by (simp add: writeInt16BE_def)
qed

lemma render_block_unfold:
  assumes bt: "bt \<in> set block_variants"
    and len: "\<forall>f\<in>set (blockFields bt). field_length f = Some (length (vals f))"
    and wk: "map_of extra ''work'' = Some (to_hex w)" "length w = 8"
    and hdr: "length header = 8"
    and idx: "indexOf BLOCK_TYPES_INDEX bt = int k" "k \<le> 6"
  shows "render_block P header (block_obj bt vals @ extra) key =
     (case block_signature P (block_obj bt vals @ extra) key
             (blake2b P (concat (map vals (blockFields bt)))) of
        Inl e \<Rightarrow> Inl e
      | Inr None \<Rightarrow> Inl TypeError
      | Inr (Some sg) \<Rightarrow>
          Inr \<lparr> message = Some (header[6 := 0, 7 := word_of_nat k]
                    @ concat (map vals (blockFields bt)) @ sg
                    @ (if bt = ''state'' then w else rev w)),
                hash = Some (to_hex (blake2b P (concat (map vals (blockFields bt))))) \<rparr>)"
proof -
  let ?blk = "block_obj bt vals @ extra"
  have ty: "map_of ?blk ''type'' = Some bt" by (simp add: block_obj_def)
  have known: "map_of BLOCK_TYPES bt \<noteq> None" using variant_facts(1) [OF bt] .
  have nn: "\<forall>f\<in>set (blockFields bt). field_length f \<noteq> None" using len by auto
  have fv: "field_values ?blk (blockFields bt) = Inr (map vals (blockFields bt))"
    by (rule field_values_ok) (use len map_of_block_obj_field in auto)
  have work: "map_of ?blk ''work'' = Some (to_hex w)"
    using map_of_block_obj_other [OF nn field_length_simps(3), of vals extra] wk(1) by simp
  have be: "(indexOf BIG_ENDIAN_WORK bt = - 1) = (bt \<noteq> ''state'')"
    using variant_facts(3) [OF bt] .
  have wl: "length (if bt \<noteq> ''state'' then rev w else w) = 8" using wk(2) by simp
  show ?thesis
    unfolding render_block_def
    apply (simp only: ty option.case known if_False idx(1) writeInt16BE_index [OF hdr idx(2)]
        sum.case fv Let_def work be from_hex_to_hex wl refl not_True_eq_False)
    apply (cases "bt = ''state''")
     apply (simp_all only: if_True if_False not_True_eq_False not_False_eq_True refl split: sum.splits option.splits)
    done
qed

lemma parse_block_ok:
  assumes ix: "at BLOCK_TYPES_INDEX k = Some bt"
    and len: "\<forall>f\<in>set (blockFields bt). field_length f = Some (length (vals f))"
    and lens: "length hdr = 8" "length sg = 64" "length wk = 8"
  shows "parse_block P (hdr @ concat (map vals (blockFields bt)) @ sg @ wk) k =
     Inr (block_obj bt vals @
          [(''hash'', to_hex (blake2b P (concat (map vals (blockFields bt))))),
           (''signature'', to_hex sg),
           (''work'', to_hex (if indexOf BIG_ENDIAN_WORK bt = - 1 then rev wk else wk))])"
proof -
  let ?c = "concat (map vals (blockFields bt))"
  let ?buf = "hdr @ ?c @ sg @ wk"
  have sf: "slice_fields ?buf 8 (blockFields bt) =
      Inr (map (\<lambda>f. (f, to_hex (vals f))) (blockFields bt), 8 + length ?c)"
    using slice_fields_ok [OF len, of hdr "sg @ wk"] lens(1) by simp
  have s1: "slice ?buf 8 (8 + length ?c) = ?c"
    using slice_mid [of hdr ?c "sg @ wk"] lens(1) by simp
  have s2: "slice ?buf (8 + length ?c) (8 + length ?c + 64) = sg"
    using slice_mid [of "hdr @ ?c" sg wk] lens by simp
  have s3: "slice ?buf (8 + length ?c + 64) (8 + length ?c + 72) = wk"
    using slice_mid [of "hdr @ ?c @ sg" wk "[]"] lens by (simp add: add.assoc)
  have ln: "length ?buf = 8 + length ?c + 72" using lens by simp
  show ?thesis
    unfolding parse_block_def
    by (simp only: ix sf s1 s2 s3 ln option.case sum.case prod.case Let_def
        block_obj_def refl if_False not_True_eq_False append_Cons)
qed

lemma renderMessage_publish:
  "renderMessage P (block_msg ''publish'' mn vM vU vm blk) key =
     render_block P (header_of (block_msg ''publish'' mn vM vU vm blk) 3) blk key"
  by (simp add: renderMessage_def block_msg_def MESSAGE_TYPES_def indexOf_def)

lemma renderMessage_confirm_req:
  "renderMessage P (block_msg ''confirm_req'' mn vM vU vm blk) key =
     render_block P (header_of (block_msg ''confirm_req'' mn vM vU vm blk) 4) blk key"
  by (simp add: renderMessage_def block_msg_def MESSAGE_TYPES_def indexOf_def)

lemma renderMessage_block_msg:
  assumes "ty = ''publish'' \<or> ty = ''confirm_req''"
  shows "renderMessage P (block_msg ty mn vM vU vm blk) key =
           render_block P (header_of (block_msg ty mn vM vU vm blk)
                             (if ty = ''publish'' then 3 else 4)) blk key"
  using assms renderMessage_publish renderMessage_confirm_req by auto

lemma parseMessage_block:
  assumes nb: "nb = 0x43 \<or> nb = 0x41" and t: "t = 3 \<or> t = 4" and k: "k \<le> 6"
  shows "parseMessage P ([0x52, nb, a, b, c, t, 0, word_of_nat k] @ rest) minimal =
     (case parse_block P ([0x52, nb, a, b, c, t, 0, word_of_nat k] @ rest) k of
        Inl e \<Rightarrow> Inl e
      | Inr blk \<Rightarrow>
          Inr \<lparr> mainnet = Some (nb = 0x43), versionMax = Some (uint a),
                versionUsing = Some (uint b), versionMin = Some (uint c),
                msg_type = Some (if t = 3 then ''publish'' else ''confirm_req''),
                extensions = Some (int k), body = BObj blk, account = None \<rparr>)"
proof -
  have uk: "unat (word_of_nat k :: byte) = k" using k by (simp add: unat_of_nat)
  have rd: "readUInt16BE ([0x52, nb, a, b, c, t, 0, word_of_nat k] @ rest) 6 = Inr k"
    by (simp add: readUInt16BE_def uk)
  have ats: "at ([0x52, nb, a, b, c, t, 0, word_of_nat k] @ rest) 0 = Some 0x52"
    "at ([0x52, nb, a, b, c, t, 0, word_of_nat k] @ rest) 1 = Some nb"
    "at ([0x52, nb, a, b, c, t, 0, word_of_nat k] @ rest) 2 = Some a"
    "at ([0x52, nb, a, b, c, t, 0, word_of_nat k] @ rest) 3 = Some b"
    "at ([0x52, nb, a, b, c, t, 0, word_of_nat k] @ rest) 4 = Some c"
    "at ([0x52, nb, a, b, c, t, 0, word_of_nat k] @ rest) 5 = Some t"
    by (simp_all add: at_def)
  have mt: "unat t < length MESSAGE_TYPES"
    "MESSAGE_TYPES ! unat t = (if t = 3 then ''publish'' else ''confirm_req'')"
    using t by (auto simp: MESSAGE_TYPES_def)
  have nbs: "\<not> (Some nb \<noteq> Some 0x43 \<and> Some nb \<noteq> Some 0x41)" using nb by auto
  show ?thesis
    unfolding parseMessage_def ats rd
    using mt nbs t by (auto simp: Let_def split: sum.splits)
qed

lemma render_then_parse:
  assumes ty: "ty = ''publish'' \<or> ty = ''confirm_req''"
    and bt: "bt \<in> set block_variants"
    and len: "\<forall>f\<in>set (blockFields bt). field_length f = Some (length (vals f))"
    and sg: "length sg = 64" and w: "length w = 8"
  shows "\<exists>hdr. length hdr = 8 \<and>
     renderMessage P (block_msg ty mn vM vU vm
         (block_obj bt vals @ [(''signature'', to_hex sg), (''work'', to_hex w)])) key
       = Inr \<lparr> message = Some (hdr @ concat (map vals (blockFields bt)) @ sg
                     @ (if bt = ''state'' then w else rev w)),
                hash = Some (to_hex (blake2b P (concat (map vals (blockFields bt))))) \<rparr>
     \<and> (\<exists>m. parseMessage P (hdr @ concat (map vals (blockFields bt)) @ sg
                     @ (if bt = ''state'' then w else rev w)) minimal = Inr m
            \<and> msg_type m = Some ty
            \<and> body m = BObj (block_obj bt vals @
                 [(''hash'', to_hex (blake2b P (concat (map vals (blockFields bt))))),
                  (''signature'', to_hex sg), (''work'', to_hex w)]))"
proof -
  let ?extra = "[(''signature'', to_hex sg), (''work'', to_hex w)]"
  let ?c = "concat (map vals (blockFields bt))"
  let ?wk = "if bt = ''state'' then w else rev w"
  let ?t = "if ty = ''publish'' then 3 else 4 :: int"
  let ?msg = "block_msg ty mn vM vU vm (block_obj bt vals @ ?extra)"
  from variant_facts(2) [OF bt] obtain k where
    k: "indexOf BLOCK_TYPES_INDEX bt = int k" "2 \<le> k" "k \<le> 6" "at BLOCK_TYPES_INDEX k = Some bt"
    by blast
  define nb :: byte where "nb = (case mn of None \<Rightarrow> 0x43 | Some b \<Rightarrow> if b then 0x43 else 0x41)"
  define a :: byte where "a = (case vM of Some v \<Rightarrow> word_of_int v | None \<Rightarrow> 0x07)"
  define b :: byte where "b = (case vU of Some v \<Rightarrow> word_of_int v | None \<Rightarrow> 0x07)"
  define c :: byte where "c = (case vm of Some v \<Rightarrow> word_of_int v | None \<Rightarrow> 0x01)"
  define t :: byte where "t = (if ty = ''publish'' then 3 else 4)"
  let ?hdr = "[0x52, nb, a, b, c, t, 0, word_of_nat k]"
  have hd: "header_of ?msg ?t = [0x52, nb, a, b, c, t, 0, 0]"
    by (simp add: header_of_def block_msg_def nb_def a_def b_def c_def t_def)
  have nbv: "nb = 0x43 \<or> nb = 0x41"
    by (simp add: nb_def split: option.splits)
  have tv: "t = 3 \<or> t = 4" by (simp add: t_def)
  have sig: "block_signature P (block_obj bt vals @ ?extra) key h = Inr (Some sg)" for h
  proof -
    have nn: "\<forall>f\<in>set (blockFields bt). field_length f \<noteq> None" using len by auto
    have "map_of (block_obj bt vals @ ?extra) ''signature'' = Some (to_hex sg)"
      using map_of_block_obj_other [OF nn field_length_simps(2), of vals ?extra] by simp
    then show ?thesis by (simp add: block_signature_def from_hex_to_hex)
  qed
  have r: "renderMessage P ?msg key =
      Inr \<lparr> message = Some (?hdr @ ?c @ sg @ ?wk), hash = Some (to_hex (blake2b P ?c)) \<rparr>"
    unfolding renderMessage_block_msg [OF ty]
    using render_block_unfold [OF bt len _ w _ k(1) k(3), of ?extra "header_of ?msg ?t" P key]
    by (simp add: sig hd)
  have wk8: "length ?wk = 8" using w by simp
  have p: "parse_block P (?hdr @ ?c @ sg @ ?wk) k =
     Inr (block_obj bt vals @
          [(''hash'', to_hex (blake2b P ?c)), (''signature'', to_hex sg),
           (''work'', to_hex (if indexOf BIG_ENDIAN_WORK bt = - 1 then rev ?wk else ?wk))])"
    by (rule parse_block_ok [OF k(4) len _ sg wk8]) simp
  have rv: "(if indexOf BIG_ENDIAN_WORK bt = - 1 then rev ?wk else ?wk) = w"
    using variant_facts(3) [OF bt] by simp
  have pm: "\<exists>m. parseMessage P (?hdr @ ?c @ sg @ ?wk) minimal = Inr m
            \<and> msg_type m = Some ty
            \<and> body m = BObj (block_obj bt vals @
                 [(''hash'', to_hex (blake2b P ?c)), (''signature'', to_hex sg),
                  (''work'', to_hex w)])"
    unfolding parseMessage_block [OF nbv tv k(3)] p rv
    using ty by (auto simp: t_def)
  show ?thesis
    apply (rule exI [of _ ?hdr])
    using r pm by simp
qed

lemma blockFields_variants:
  "blockFields ''send'' = [''previous'', ''destination'', ''balance'']"
  "blockFields ''receive'' = [''previous'', ''source'']"
  "blockFields ''open'' = [''source'', ''representative'', ''account'']"
  "blockFields ''change'' = [''previous'', ''representative'']"
  "blockFields ''state'' = [''account'', ''previous'', ''representative'', ''balance'', ''link'']"
  by (simp_all add: blockFields_def SPECIAL_ORDERING_def REQUIRED_FIELDS_def BLOCK_TYPES_def
      indexOf_def)

lemma example_vals_lengths:
  "bt \<in> set block_variants \<Longrightarrow>
   \<forall>f\<in>set (blockFields bt). field_length f = Some (length (example_vals f))"
  by (auto simp: block_variants_def blockFields_variants field_length_def REQUIRED_FIELDS_def
      example_vals_def)

text \<open>
  Claim C1. For each of the five block variants, any bytes of the mandated lengths for
  its required fields, a 64-byte signature and an 8-byte work value: rendering the block
  as a \<^verbatim>\<open>publish\<close> message succeeds, and parsing the rendered bytes returns a block
  of the same type with the same field values, the hash the rendering returned, the same
  signature and the same work (all in lower-case hexadecimal).
\<close>

theorem publish_round_trip:
  assumes "bt \<in> set block_variants"
    and "\<forall>f\<in>set (blockFields bt). field_length f = Some (length (vals f))"
    and "length sg = 64" and "length w = 8"
  shows "\<exists>bytes h m.
      renderMessage P (block_msg ''publish'' mn vM vU vm
          (block_obj bt vals @ [(''signature'', to_hex sg), (''work'', to_hex w)])) key
        = Inr \<lparr> message = Some bytes, hash = Some h \<rparr>
      \<and> parseMessage P bytes minimal = Inr m
      \<and> body m = BObj (block_obj bt vals @
            [(''hash'', h), (''signature'', to_hex sg), (''work'', to_hex w)])"
  using render_then_parse [OF _ assms, of "''publish''" P mn vM vU vm key minimal]
  by auto

theorem publish_round_trip_witness:
  "''send'' \<in> set block_variants \<and>
   (\<exists>bytes h m.
      renderMessage stub_crypto (block_msg ''publish'' None None None None
          (block_obj ''send'' example_vals @
             [(''signature'', to_hex (replicate 64 9)),
              (''work'', to_hex [1, 2, 3, 4, 5, 6, 7, 8])])) None
        = Inr \<lparr> message = Some bytes, hash = Some h \<rparr>
      \<and> parseMessage stub_crypto bytes False = Inr m
      \<and> body m = BObj (block_obj ''send'' example_vals @
            [(''hash'', h), (''signature'', to_hex (replicate 64 9)),
             (''work'', to_hex [1, 2, 3, 4, 5, 6, 7, 8])]))"
  using publish_round_trip [where bt = "''send''" and vals = example_vals
      and sg = "replicate 64 9" and w = "[1, 2, 3, 4, 5, 6, 7, 8]" and P = stub_crypto
      and mn = None and vM = None and vU = None and vm = None and key = None
      and minimal = False]
    example_vals_lengths [of "''send''"]
  by (simp add: block_variants_def)

text \<open>
  Claim C8. For every variant and every 8-byte work value, the last eight bytes of the
  rendered message are the work bytes as given for the \<^verbatim>\<open>state\<close> variant and the
  work bytes reversed for every other variant, so a \<^verbatim>\<open>state\<close> block and a
  \<^verbatim>\<open>send\<close> block with the same work carry byte-reversed work fields; parsing
  returns the work that was rendered.
\<close>

theorem work_endianness:
  assumes "bt \<in> set block_variants"
    and "\<forall>f\<in>set (blockFields bt). field_length f = Some (length (vals f))"
    and "length sg = 64" and "length w = 8"
  shows "\<exists>bytes h m blk.
      renderMessage P (block_msg ''publish'' mn vM vU vm
          (block_obj bt vals @ [(''signature'', to_hex sg), (''work'', to_hex w)])) key
        = Inr \<lparr> message = Some bytes, hash = h \<rparr>
      \<and> drop (length bytes - 8) bytes = (if bt = ''state'' then w else rev w)
      \<and> parseMessage P bytes minimal = Inr m
      \<and> body m = BObj blk \<and> map_of blk ''work'' = Some (to_hex w)"
proof -
  have nn: "\<forall>f\<in>set (blockFields bt). field_length f \<noteq> None" using assms(2) by auto
  have mw: "map_of (block_obj bt vals @ [(''hash'', h), (''signature'', to_hex sg),
      (''work'', to_hex w)]) ''work'' = Some (to_hex w)" for h
    using map_of_block_obj_other [OF nn field_length_simps(3), of vals
        "[(''hash'', h), (''signature'', to_hex sg), (''work'', to_hex w)]"]
    by (simp del: map_of_append)
  from render_then_parse [OF _ assms, of "''publish''" P mn vM vU vm key minimal]
  obtain hdr m where
    r: "renderMessage P (block_msg ''publish'' mn vM vU vm
          (block_obj bt vals @ [(''signature'', to_hex sg), (''work'', to_hex w)])) key
        = Inr \<lparr> message = Some (hdr @ concat (map vals (blockFields bt)) @ sg
                     @ (if bt = ''state'' then w else rev w)),
                hash = Some (to_hex (blake2b P (concat (map vals (blockFields bt))))) \<rparr>"
    and p: "parseMessage P (hdr @ concat (map vals (blockFields bt)) @ sg
                     @ (if bt = ''state'' then w else rev w)) minimal = Inr m"
    and b: "body m = BObj (block_obj bt vals @
                 [(''hash'', to_hex (blake2b P (concat (map vals (blockFields bt))))),
                  (''signature'', to_hex sg), (''work'', to_hex w)])"
    by auto
  have d: "drop (length (hdr @ concat (map vals (blockFields bt)) @ sg
                     @ (if bt = ''state'' then w else rev w)) - 8)
              (hdr @ concat (map vals (blockFields bt)) @ sg
                     @ (if bt = ''state'' then w else rev w))
           = (if bt = ''state'' then w else rev w)"
    using assms(4) by simp
  from r d p b mw show ?thesis by blast
qed

theorem work_endianness_witness:
  "''state'' \<in> set block_variants \<and>
   (\<exists>bytes h m blk.
      renderMessage stub_crypto (block_msg ''publish'' None None None None
          (block_obj ''state'' example_vals @
             [(''signature'', to_hex (replicate 64 9)),
              (''work'', to_hex [1, 2, 3, 4, 5, 6, 7, 8])])) None
        = Inr \<lparr> message = Some bytes, hash = h \<rparr>
      \<and> drop (length bytes - 8) bytes = [1, 2, 3, 4, 5, 6, 7, 8]
      \<and> parseMessage stub_crypto bytes False = Inr m
      \<and> body m = BObj blk \<and> map_of blk ''work'' = Some (to_hex [1, 2, 3, 4, 5, 6, 7, 8]))
   \<and> (\<exists>bytes h m blk.
      renderMessage stub_crypto (block_msg ''publish'' None None None None
          (block_obj ''send'' example_vals @
             [(''signature'', to_hex (replicate 64 9)),
              (''work'', to_hex [1, 2, 3, 4, 5, 6, 7, 8])])) None
        = Inr \<lparr> message = Some bytes, hash = h \<rparr>
      \<and> drop (length bytes - 8) bytes = [8, 7, 6, 5, 4, 3, 2, 1]
      \<and> parseMessage stub_crypto bytes False = Inr m
      \<and> body m = BObj blk \<and> map_of blk ''work'' = Some (to_hex [1, 2, 3, 4, 5, 6, 7, 8]))"
  using work_endianness [where bt = "''state''" and vals = example_vals
      and sg = "replicate 64 9" and w = "[1, 2, 3, 4, 5, 6, 7, 8]" and P = stub_crypto
      and mn = None and vM = None and vU = None and vm = None and key = None
      and minimal = False]
    work_endianness [where bt = "''send''" and vals = example_vals
      and sg = "replicate 64 9" and w = "[1, 2, 3, 4, 5, 6, 7, 8]" and P = stub_crypto
      and mn = None and vM = None and vU = None and vm = None and key = None
      and minimal = False]
    example_vals_lengths [of "''state''"] example_vals_lengths [of "''send''"]
  by (simp add: block_variants_def)

text \<open>
  Claim C6, on the code. A \<^verbatim>\<open>publish\<close> or \<^verbatim>\<open>confirm_req\<close> message whose block
  has every required field at its mandated length and an 8-byte work value, but no
  \<^verbatim>\<open>signature\<close> property, rendered with no account key (or the empty string):
  \<^verbatim>\<open>signature\<close> stays \<^verbatim>\<open>undefined\<close> and \<^verbatim>\<open>Buffer.concat\<close> raises a
  \<^verbatim>\<open>TypeError\<close>. No unsigned block is produced.
\<close>

theorem unsigned_block_raises:
  assumes "ty = ''publish'' \<or> ty = ''confirm_req''"
    and "bt \<in> set block_variants"
    and "\<forall>f\<in>set (blockFields bt). field_length f = Some (length (vals f))"
    and "length w = 8"
    and "key = None \<or> key = Some []"
  shows "renderMessage P (block_msg ty mn vM vU vm (block_obj bt vals @ [(''work'', to_hex w)])) key
         = Inl TypeError"
proof -
  let ?extra = "[(''work'', to_hex w)]"
  let ?msg = "block_msg ty mn vM vU vm (block_obj bt vals @ ?extra)"
  from variant_facts(2) [OF assms(2)] obtain k where
    k: "indexOf BLOCK_TYPES_INDEX bt = int k" "k \<le> 6" by blast
  have nn: "\<forall>f\<in>set (blockFields bt). field_length f \<noteq> None" using assms(3) by auto
  have "map_of (block_obj bt vals @ ?extra) ''signature'' = None"
    using map_of_block_obj_other [OF nn field_length_simps(2), of vals ?extra]
    by (simp del: map_of_append)
  then have sig: "block_signature P (block_obj bt vals @ ?extra) key h = Inr None" for h
    using assms(5) by (auto simp: block_signature_def simp del: map_of_append)
  have hl: "length (header_of ?msg t) = 8" for t by (simp add: header_of_def)
  show ?thesis
    unfolding renderMessage_block_msg [OF assms(1)]
    using render_block_unfold [OF assms(2,3) _ assms(4) _ k,
        of ?extra "header_of ?msg (if ty = ''publish'' then 3 else 4)" P key]
    by (simp add: sig hl)
qed

theorem unsigned_block_raises_witness:
  "''send'' \<in> set block_variants \<and>
   renderMessage stub_crypto (block_msg ''publish'' None None None None
       (block_obj ''send'' example_vals @ [(''work'', to_hex [1, 2, 3, 4, 5, 6, 7, 8])])) None
     = Inl TypeError"
  using unsigned_block_raises [where ty = "''publish''" and bt = "''send''"
      and vals = example_vals and w = "[1, 2, 3, 4, 5, 6, 7, 8]" and P = stub_crypto
      and mn = None and vM = None and vU = None and vm = None and key = None]
    example_vals_lengths [of "''send''"]
  by (simp add: block_variants_def)

section \<open>Votes\<close>

text \<open>
  Claim C2, on the code. With \<^verbatim>\<open>minimalConfirmAck\<close> off, every buffer that passes
  the header checks and has the type byte of \<^verbatim>\<open>confirm_ack\<close> fails with a
  \<^verbatim>\<open>ReferenceError\<close>, whatever its signature: the block is never parsed and the
  signature is never verified.
\<close>

theorem confirm_ack_full_mode_raises:
  assumes "8 \<le> length buf" and "buf ! 0 = 0x52" and "buf ! 1 = 0x43 \<or> buf ! 1 = 0x41"
    and "buf ! 5 = 5"
  shows "parseMessage P buf False = Inl ReferenceError"
  using assms
  by (auto simp: parseMessage_def at_def readUInt16BE_def MESSAGE_TYPES_def Let_def)

theorem confirm_ack_full_mode_raises_witness:
  "8 \<le> length example_vote \<and> length example_vote = 264
   \<and> parseMessage stub_crypto example_vote False = Inl ReferenceError"
  using confirm_ack_full_mode_raises [of example_vote stub_crypto]
  by (simp add: example_vote_def)

section \<open>bulk_pull\<close>







section \<open>Keepalive\<close>

lemma hexdigit_table:
  "hexdigit 0 = CHR ''0''" "hexdigit (Suc 0) = CHR ''1''" "hexdigit 1 = CHR ''1''" "hexdigit 2 = CHR ''2''" "hexdigit 3 = CHR ''3''"
  "hexdigit 4 = CHR ''4''" "hexdigit 5 = CHR ''5''" "hexdigit 6 = CHR ''6''" "hexdigit 7 = CHR ''7''"
  "hexdigit 8 = CHR ''8''" "hexdigit 9 = CHR ''9''" "hexdigit 10 = CHR ''a''" "hexdigit 11 = CHR ''b''"
  "hexdigit 12 = CHR ''c''" "hexdigit 13 = CHR ''d''" "hexdigit 14 = CHR ''e''" "hexdigit 15 = CHR ''f''"
  by (simp_all add: hexdigit_def char_of_def bit_0)

lemma replicate_numeral: "replicate (numeral k) x = x # replicate (pred_numeral k) x"
  by (simp add: numeral_eq_Suc)

lemma radix_digits_numeral:
  "radix_digits (numeral k) b n =
     (if n < b then [hexdigit n] else radix_digits (pred_numeral k) b (n div b) @ [hexdigit (n mod b)])"
  by (simp add: numeral_eq_Suc)

lemma render_two_peers:
  "renderMessage P two_peers key = Inr \<lparr> message = Some two_peers_bytes, hash = None \<rparr>"
  by (simp add: renderMessage_def two_peers_def empty_msg_def MESSAGE_TYPES_def indexOf_def header_of_def
     IPV6_PATTERN_def dot_or_colon_def parseInt10_def is_space_def is_digit_def digits_value_def Let_def
     writeUInt16LE_def two_peers_bytes_def replicate_numeral)

lemma parseIp_slot0: "parseIp two_peers_bytes 8 = Inr ''1.2.3.4:7075''"
  by (simp add: parseIp_def two_peers_bytes_def replicate_numeral slice_def IPV4MASK_def
      readUInt16LE_def at_def byte_text_def toString10_def radix_digits_numeral hexdigit_table)

lemma parseIp_slot1: "parseIp two_peers_bytes 26 = Inr ''[::ffff:506:708:a41b]:0''"
  by (simp add: parseIp_def two_peers_bytes_def replicate_numeral slice_def IPV4MASK_def
      readUInt16LE_def readUInt16BE_def at_def byte_text_def toString10_def toString16_def
      radix_digits_numeral hexdigit_table zero_run_at_def upt_conv_Cons)

lemma parse_two_peers_bytes:
  "parseMessage P two_peers_bytes minimal =
   Inr \<lparr> mainnet = Some True, versionMax = Some 7, versionUsing = Some 7, versionMin = Some 1,
         msg_type = Some ''keepalive'', extensions = Some 0,
         body = BArr [''1.2.3.4:7075'', ''[::ffff:506:708:a41b]:0''], account = None \<rparr>"
proof -
  have z: "parseIp two_peers_bytes 44 = Inr ''[::]:0''" "parseIp two_peers_bytes 62 = Inr ''[::]:0''"
    "parseIp two_peers_bytes 80 = Inr ''[::]:0''" "parseIp two_peers_bytes 98 = Inr ''[::]:0''"
    "parseIp two_peers_bytes 116 = Inr ''[::]:0''" "parseIp two_peers_bytes 134 = Inr ''[::]:0''"
    by (simp_all add: parseIp_def two_peers_bytes_def replicate_numeral slice_def IPV4MASK_def
      readUInt16LE_def readUInt16BE_def at_def byte_text_def toString10_def toString16_def
      radix_digits_numeral hexdigit_table zero_run_at_def upt_conv_Cons)
  have kl: "keepalive_loop two_peers_bytes 8 [] = Inr [''1.2.3.4:7075'', ''[::ffff:506:708:a41b]:0'']"
    by (subst keepalive_loop.simps, simp add: parseIp_slot0 parseIp_slot1 z)+
  have hd: "length two_peers_bytes = 152" "at two_peers_bytes 0 = Some 0x52"
    "at two_peers_bytes (Suc 0) = Some 0x43" "at two_peers_bytes 2 = Some 7" "at two_peers_bytes 3 = Some 7"
    "at two_peers_bytes 4 = Some 1" "at two_peers_bytes 5 = Some 2"
    "readUInt16BE two_peers_bytes 6 = Inr 0"
    by (simp_all add: two_peers_bytes_def at_def readUInt16BE_def)
  show ?thesis
    by (simp add: parseMessage_def hd kl MESSAGE_TYPES_def Let_def)
qed

text \<open>The single peer \<^verbatim>\<open>1.2.3.4:7075\<close> is read back as it was given.\<close>

lemma render_one_peer:
  "renderMessage P one_peer key = Inr \<lparr> message = Some one_peer_bytes, hash = None \<rparr>"
  by (simp add: renderMessage_def one_peer_def empty_msg_def MESSAGE_TYPES_def indexOf_def header_of_def
     IPV6_PATTERN_def dot_or_colon_def parseInt10_def is_space_def is_digit_def digits_value_def Let_def
     writeUInt16LE_def one_peer_bytes_def replicate_numeral)

lemma parse_one_peer_bytes:
  "parseMessage P one_peer_bytes minimal =
   Inr \<lparr> mainnet = Some True, versionMax = Some 7, versionUsing = Some 7, versionMin = Some 1,
         msg_type = Some ''keepalive'', extensions = Some 0,
         body = BArr [''1.2.3.4:7075''], account = None \<rparr>"
proof -
  have s0: "parseIp one_peer_bytes 8 = Inr ''1.2.3.4:7075''"
    by (simp add: parseIp_def one_peer_bytes_def replicate_numeral slice_def IPV4MASK_def
      readUInt16LE_def at_def byte_text_def toString10_def radix_digits_numeral hexdigit_table)
  have z: "parseIp one_peer_bytes 26 = Inr ''[::]:0''"
    "parseIp one_peer_bytes 44 = Inr ''[::]:0''" "parseIp one_peer_bytes 62 = Inr ''[::]:0''"
    "parseIp one_peer_bytes 80 = Inr ''[::]:0''" "parseIp one_peer_bytes 98 = Inr ''[::]:0''"
    "parseIp one_peer_bytes 116 = Inr ''[::]:0''" "parseIp one_peer_bytes 134 = Inr ''[::]:0''"
    by (simp_all add: parseIp_def one_peer_bytes_def replicate_numeral slice_def IPV4MASK_def
      readUInt16LE_def readUInt16BE_def at_def byte_text_def toString10_def toString16_def
      radix_digits_numeral hexdigit_table zero_run_at_def upt_conv_Cons)
  have kl: "keepalive_loop one_peer_bytes 8 [] = Inr [''1.2.3.4:7075'']"
    by (subst keepalive_loop.simps, simp add: s0 z)+
  have hd: "length one_peer_bytes = 152" "at one_peer_bytes 0 = Some 0x52"
    "at one_peer_bytes (Suc 0) = Some 0x43" "at one_peer_bytes 2 = Some 7"
    "at one_peer_bytes 3 = Some 7" "at one_peer_bytes 4 = Some 1" "at one_peer_bytes 5 = Some 2"
    "readUInt16BE one_peer_bytes 6 = Inr 0"
    by (simp_all add: one_peer_bytes_def at_def readUInt16BE_def)
  show ?thesis
    by (simp add: parseMessage_def hd kl MESSAGE_TYPES_def Let_def)
qed

text \<open>
  Claim C3 at the peers \<^verbatim>\<open>["1.2.3.4:7075", "5.6.7.8:7076"]\<close>. The renderer puts
  entry \<open>index\<close> at byte \<open>8 + 16 * index\<close> while the parser reads entries 18 bytes
  apart, so only the first entry is read back: the second is read across two slots as
  an IPv6 address with port 0.
\<close>

theorem keepalive_two_peers_garbled:
  "\<exists>bytes m.
     renderMessage P two_peers key = Inr \<lparr> message = Some bytes, hash = None \<rparr>
     \<and> length bytes = 152
     \<and> parseMessage P bytes minimal = Inr m
     \<and> body m = BArr [''1.2.3.4:7075'', ''[::ffff:506:708:a41b]:0'']
     \<and> body m \<noteq> body two_peers"
proof -
  have "length two_peers_bytes = 152" by (simp add: two_peers_bytes_def)
  moreover have "body two_peers = BArr [''1.2.3.4:7075'', ''5.6.7.8:7076'']"
    by (simp add: two_peers_def empty_msg_def)
  ultimately show ?thesis
    using render_two_peers [of P key] parse_two_peers_bytes [of P minimal] by simp
qed

section \<open>Chain reassembly\<close>

lemma slice_fields_total:
  assumes "\<forall>f\<in>set fs. field_length f \<noteq> None"
  shows "\<exists>blk. slice_fields buf pos fs =
           Inr (blk, pos + sum_list (map (\<lambda>f. the (field_length f)) fs))"
  using assms
proof (induction fs arbitrary: pos)
  case Nil
  then show ?case by simp
next
  case (Cons f fs)
  from Cons.prems obtain len where fl: "field_length f = Some len" by auto
  from Cons.prems have "\<forall>f\<in>set fs. field_length f \<noteq> None" by simp
  from Cons.IH [OF this, of "pos + len"] obtain blk where
    "slice_fields buf (pos + len) fs =
       Inr (blk, pos + len + sum_list (map (\<lambda>f. the (field_length f)) fs))" by blast
  with fl show ?case by (simp add: add.assoc)
qed

lemma type_cases: "2 \<le> k \<Longrightarrow> k \<le> 6 \<Longrightarrow> k = 2 \<or> k = 3 \<or> k = 4 \<or> k = 5 \<or> k = (6::nat)"
  by arith

lemma payload_lengths:
  assumes "2 \<le> k" "k \<le> 6"
  shows "\<exists>bt. at BLOCK_TYPES_INDEX k = Some bt
           \<and> (\<forall>f\<in>set (blockFields bt). field_length f \<noteq> None)
           \<and> sum_list (map (\<lambda>f. the (field_length f)) (blockFields bt)) = BLOCK_LENGTHS ! k"
  using type_cases [OF assms]
  by (auto simp: at_def BLOCK_TYPES_INDEX_def BLOCK_LENGTHS_def blockFields_variants
      field_length_def REQUIRED_FIELDS_def)

lemma parse_block_frame:
  assumes "2 \<le> k" "k \<le> 6" "length buf = 8 + BLOCK_LENGTHS ! k + 72"
  shows "\<exists>blk. parse_block P buf k = Inr blk"
proof -
  from payload_lengths [OF assms(1,2)] obtain bt where
    bt: "at BLOCK_TYPES_INDEX k = Some bt"
      "\<forall>f\<in>set (blockFields bt). field_length f \<noteq> None"
      "sum_list (map (\<lambda>f. the (field_length f)) (blockFields bt)) = BLOCK_LENGTHS ! k"
    by blast
  from slice_fields_total [OF bt(2), of buf 8] bt(3) obtain blk where
    "slice_fields buf 8 (blockFields bt) = Inr (blk, 8 + BLOCK_LENGTHS ! k)" by auto
  with bt(1) assms(3) show ?thesis
    by (simp add: parse_block_def Let_def)
qed

lemma parse_frame:
  assumes "wf_frame f"
  shows "\<exists>m. parseMessage P (BULK_PULL_PREFIX @ f) False = Inr m \<and> body m = frame_body P f"
proof -
  from assms obtain t payload where f: "f = t # payload"
    and t: "2 \<le> unat t" "unat t \<le> 6"
    and l: "length payload = BLOCK_LENGTHS ! unat t + 72"
    by (auto simp: wf_frame_def split: list.splits)
  have buf: "BULK_PULL_PREFIX @ f = [0x52, 0x43, 5, 5, 1, 3, 0, word_of_nat (unat t)] @ payload"
    by (simp add: BULK_PULL_PREFIX_def f)
  have "length (BULK_PULL_PREFIX @ f) = 8 + BLOCK_LENGTHS ! unat t + 72"
    by (simp add: BULK_PULL_PREFIX_def f l)
  from parse_block_frame [OF t this, of P] obtain blk where
    pb: "parse_block P (BULK_PULL_PREFIX @ f) (unat t) = Inr blk" by blast
  have "\<exists>m. parseMessage P (BULK_PULL_PREFIX @ f) False = Inr m"
    unfolding buf
    using parseMessage_block [of "0x43" 3 "unat t" P 5 5 1 payload False] t(2) pb [unfolded buf]
    by simp
  then show ?thesis by (auto simp: frame_body_def)
qed

lemma frame_length:
  assumes "wf_frame f"
  shows "f \<noteq> []" and "at BLOCK_LENGTHS (unat (hd f)) = Some (length f - 73)"
    and "unat (hd f) \<noteq> 1" and "73 \<le> length f"
  using assms
  by (auto simp: wf_frame_def at_def BLOCK_LENGTHS_def split: list.splits)

lemma parseChain_loop_frames:
  assumes "list_all wf_frame fs" and "partial_frame p"
  shows "parseChain_loop P (pre @ concat fs @ p) (length pre) (Some r) out =
           Inr \<lparr> blocks = out @ map (frame_body P) fs,
                 remaining = Some (if p = [] then r else p) \<rparr>"
  using assms(1)
proof (induction fs arbitrary: pre out)
  case Nil
  show ?case
  proof (cases p)
    case Nil
    then show ?thesis by (subst parseChain_loop.simps) simp
  next
    case (Cons t q)
    with assms(2) have t: "2 \<le> unat t" "unat t \<le> 6"
      and l: "length q < BLOCK_LENGTHS ! unat t + 72"
      by (auto simp: partial_frame_def)
    have nth: "(pre @ t # q) ! length pre = t" by simp
    have bl: "at BLOCK_LENGTHS (unat t) = Some (BLOCK_LENGTHS ! unat t)"
      using t by (simp add: at_def BLOCK_LENGTHS_def)
    have sl: "slice (pre @ t # q) (length pre) (length (pre @ t # q)) = t # q"
      by (simp add: slice_def)
    have stop: "parseChain_loop P (pre @ t # q)
        (length pre + (BLOCK_LENGTHS ! unat t + 1 + (64 + 8))) (Some (t # q)) out
        = Inr \<lparr> blocks = out, remaining = Some (t # q) \<rparr>"
      using l by (subst parseChain_loop.simps) simp
    show ?thesis
      unfolding Cons
      apply (subst parseChain_loop.simps)
      using t l stop sl by (simp add: nth bl Let_def)
  qed
next
  case (Cons f fs)
  then have wf: "wf_frame f" and rest: "list_all wf_frame fs" by simp_all
  note fl = frame_length [OF wf]
  from parse_frame [OF wf, of P] obtain m where
    m: "parseMessage P (BULK_PULL_PREFIX @ f) False = Inr m" "body m = frame_body P f" by blast
  let ?buf = "pre @ concat (f # fs) @ p"
  have nth: "?buf ! length pre = hd f" using fl(1) by (cases f) simp_all
  have len: "length pre < length ?buf" using fl(1) by simp
  have bl: "length f - 73 + 1 + (64 + 8) = length f" using fl(4) by simp
  have fits: "\<not> length ?buf < length pre + length f" by simp
  have sl: "slice ?buf (length pre) (length pre + length f) = f"
    using slice_mid [of pre f "concat fs @ p"] by simp
  have ih: "parseChain_loop P ?buf (length pre + length f) (Some r) (out @ [frame_body P f]) =
      Inr \<lparr> blocks = (out @ [frame_body P f]) @ map (frame_body P) fs,
            remaining = Some (if p = [] then r else p) \<rparr>"
    using Cons.IH [OF rest, of "pre @ f" "out @ [frame_body P f]"] by simp
  show ?case
    apply (subst parseChain_loop.simps)
    using len fl(3) fits ih
    by (simp only: nth fl(2) bl sl m Let_def if_True if_False option.case sum.case
        list.map append_assoc append_Cons append_Nil)
qed

lemma parseChain_frames:
  assumes "list_all wf_frame fs" and "partial_frame p"
  shows "parseChain P (concat fs @ p) =
           Inr \<lparr> blocks = map (frame_body P) fs, remaining = Some p \<rparr>"
  using parseChain_loop_frames [OF assms, of P "[]" "[]" "[]"]
  by (simp add: parseChain_def)

lemma partial_frame_prefix:
  assumes "partial_frame (x @ y)"
  shows "partial_frame x"
  using assms by (cases x) (auto simp: partial_frame_def)

lemma wf_frame_prefix:
  assumes "wf_frame (x @ y)" and "y \<noteq> []"
  shows "partial_frame x"
proof (cases x)
  case Nil
  then show ?thesis by (simp add: partial_frame_def)
next
  case (Cons t q)
  from assms(2) have pos: "0 < length y" by simp
  from assms(1) Cons have t: "2 \<le> unat t" "unat t \<le> 6"
    and l: "length q + length y = BLOCK_LENGTHS ! unat t + 72"
    by (auto simp: wf_frame_def)
  from pos l have "length q < BLOCK_LENGTHS ! unat t + 72" by linarith
  with t Cons show ?thesis by (simp add: partial_frame_def)
qed

lemma not_partial_wf:
  assumes "wf_frame f"
  shows "\<not> partial_frame (f @ y)"
  using assms by (cases f) (auto simp: partial_frame_def wf_frame_def)

text \<open>A prefix of a stream of frames followed by a partial frame splits the same way.\<close>

lemma split_stream:
  assumes "list_all wf_frame fs" and "partial_frame p" and "x @ y = concat fs @ p"
  shows "\<exists>fs1 fs2 p1. fs = fs1 @ fs2 \<and> x = concat fs1 @ p1 \<and> partial_frame p1
           \<and> p1 @ y = concat fs2 @ p"
  using assms
proof (induction fs arbitrary: x)
  case Nil
  then have "partial_frame x" using partial_frame_prefix [of x y] by simp
  with Nil show ?case by simp
next
  case (Cons f fs)
  then have wf: "wf_frame f" and rest: "list_all wf_frame fs" by simp_all
  from Cons.prems(3) have eq: "x @ y = f @ (concat fs @ p)" by simp
  show ?case
  proof (cases "length x < length f")
    case True
    define z where "z = drop (length x) f"
    from True eq have "x = take (length x) f \<and> y = drop (length x) f @ concat fs @ p"
      using append_eq_append_conv_if [of x y f "concat fs @ p"] by simp
    with True have z: "f = x @ z" "z \<noteq> []" "y = z @ concat fs @ p"
      unfolding z_def by (metis append_take_drop_id, simp, simp)
    from wf z(1,2) have "partial_frame x" using wf_frame_prefix by blast
    with z show ?thesis
      by (intro exI [of _ "[]"] exI [of _ "f # fs"] exI [of _ x]) simp
  next
    case False
    define x' where "x' = drop (length f) x"
    from False eq have "f = take (length f) x \<and> concat fs @ p = drop (length f) x @ y"
      using append_eq_append_conv_if [of f "concat fs @ p" x y] by auto
    then have x': "x = f @ x'" "x' @ y = concat fs @ p"
      unfolding x'_def by (metis append_take_drop_id, simp)
    from Cons.IH [OF rest Cons.prems(2) x'(2)] obtain fs1 fs2 p1 where
      "fs = fs1 @ fs2" "x' = concat fs1 @ p1" "partial_frame p1" "p1 @ y = concat fs2 @ p"
      by blast
    with x'(1) show ?thesis
      by (intro exI [of _ "f # fs1"] exI [of _ fs2] exI [of _ p1]) simp
  qed
qed

lemma feed_frames:
  assumes "list_all wf_frame fs" and "partial_frame p" and "partial_frame p0"
    and "p0 @ concat chunks = concat fs @ p"
  shows "feed P \<lparr> blocks = bs0, remaining = Some p0 \<rparr> chunks =
           Inr \<lparr> blocks = bs0 @ map (frame_body P) fs, remaining = Some p \<rparr>"
  using assms
proof (induction chunks arbitrary: fs p0 bs0)
  case Nil
  have "fs = []"
  proof (cases fs)
    case (Cons f fs')
    with Nil.prems(1) have "wf_frame f" by simp
    from not_partial_wf [OF this, of "concat fs' @ p"] Nil.prems(3,4) Cons
    show ?thesis by simp
  qed simp
  with Nil.prems(4) show ?case by simp
next
  case (Cons c cs)
  from Cons.prems(4) have "(p0 @ c) @ concat cs = concat fs @ p" by simp
  from split_stream [OF Cons.prems(1,2) this] obtain fs1 fs2 p1 where
    sp: "fs = fs1 @ fs2" "p0 @ c = concat fs1 @ p1" "partial_frame p1"
        "p1 @ concat cs = concat fs2 @ p"
    by blast
  from Cons.prems(1) sp(1) have wf1: "list_all wf_frame fs1" and wf2: "list_all wf_frame fs2"
    by simp_all
  have od: "on_data P \<lparr> blocks = bs0, remaining = Some p0 \<rparr> c =
      Inr \<lparr> blocks = bs0 @ map (frame_body P) fs1, remaining = Some p1 \<rparr>"
    using parseChain_frames [OF wf1 sp(3), of P] sp(2) by (simp add: on_data_def)
  from Cons.IH [OF wf2 Cons.prems(2) sp(3,4), of "bs0 @ map (frame_body P) fs1"] od sp(1)
  show ?case by simp
qed

text \<open>
  Claim C5. Let the bytes received so far, in any split into chunks, be complete block
  frames \<open>fs\<close> followed by a partial frame \<open>p\<close> (empty when the stream ends on a frame
  boundary). Feeding the chunks one at a time, each time parsing the retained residual
  followed by the new chunk, succeeds; the blocks collected are exactly the blocks of
  parsing the frames \<open>fs\<close> unsplit, one for each complete frame, and the residual
  retained is \<open>p\<close>. So a block is collected only once its whole frame has arrived, and
  a whole stream of frames gives the same blocks however it is split.
\<close>

theorem chain_reassembly:
  assumes "list_all wf_frame fs" and "partial_frame p" and "concat chunks = concat fs @ p"
  shows "\<exists>bs. parseChain P (concat fs) = Inr \<lparr> blocks = bs, remaining = Some [] \<rparr>
           \<and> length bs = length fs
           \<and> feed P fresh_connection chunks = Inr \<lparr> blocks = bs, remaining = Some p \<rparr>"
proof -
  have e: "partial_frame []" by (simp add: partial_frame_def)
  have "parseChain P (concat fs) =
      Inr \<lparr> blocks = map (frame_body P) fs, remaining = Some [] \<rparr>"
    using parseChain_frames [OF assms(1) e, of P] by simp
  moreover have "feed P fresh_connection chunks =
      Inr \<lparr> blocks = map (frame_body P) fs, remaining = Some p \<rparr>"
    using feed_frames [OF assms(1,2) e, of chunks P "[]"] assms(3)
    by (simp add: fresh_connection_def)
  ultimately show ?thesis by simp
qed

theorem chain_reassembly_witness:
  "length example_frame = 137 \<and> wf_frame example_frame
   \<and> (\<exists>bs. parseChain stub_crypto example_frame
              = Inr \<lparr> blocks = bs, remaining = Some [] \<rparr>
          \<and> length bs = 1
          \<and> feed stub_crypto fresh_connection [take 100 example_frame, drop 100 example_frame]
              = Inr \<lparr> blocks = bs, remaining = Some [] \<rparr>)
   \<and> feed stub_crypto fresh_connection [take 100 example_frame]
        = Inr \<lparr> blocks = [], remaining = Some (take 100 example_frame) \<rparr>"
proof -
  have wf: "wf_frame example_frame"
    by (simp add: wf_frame_def example_frame_def BLOCK_LENGTHS_def)
  have pf: "partial_frame (take 100 example_frame)"
    by (simp add: partial_frame_def example_frame_def BLOCK_LENGTHS_def)
  have e: "partial_frame []" by (simp add: partial_frame_def)
  have ln: "length example_frame = 137" by (simp add: example_frame_def)
  show ?thesis
    using chain_reassembly [where fs = "[example_frame]" and p = "[]"
        and chunks = "[take 100 example_frame, drop 100 example_frame]" and P = stub_crypto]
      chain_reassembly [where fs = "[]" and p = "take 100 example_frame"
        and chunks = "[take 100 example_frame]" and P = stub_crypto]
      wf pf e ln
    by simp
qed

end
